theory Spec2Isabelle
  imports Main
begin

section \<open>User progress repository (database/repositories/user-progress.repository)\<close>

text \<open>
  The repository class \<open>UserProgressRepository\<close> is a thin layer over the Prisma
  model \<open>userProgress\<close>. The embedding has two layers, as the source has:
  \<^item> the table of progress rows with the four Prisma calls the repository makes
    (\<open>findUnique\<close>, \<open>findMany\<close>, \<open>upsert\<close>, \<open>update\<close>);
  \<^item> the repository methods, translated line by line on top of these calls.
  A method takes the table and returns its outcome (an error or the value the promise
  resolves to) together with the table after the call. TypeScript \<open>number\<close> values
  are modelled as mathematical integers (step numbers and counters are integral in the
  Prisma model), a \<open>Date\<close> as its number of milliseconds since the epoch.
\<close>

subsection \<open>Entities and inputs (database/types)\<close>

type_synonym date = int

text \<open>Interface \<open>DbUserProgress\<close>. The field \<open>id\<close> is written \<open>id'\<close>.\<close>

record DbUserProgress =
  id' :: string
  userId :: string
  lessonId :: string
  completedSteps :: "int list"
  currentStep :: int
  startedAt :: date
  completedAt :: "date option"
  timeSpentSecs :: int
  hintsUsed :: int
  attempts :: int

text \<open>
  Interface \<open>UpsertProgressInput\<close>. An optional field \<open>f?: T\<close> is \<open>T option\<close>,
  \<open>None\<close> standing for \<open>undefined\<close>. Field names carry the prefix \<open>in_\<close>.
\<close>

record UpsertProgressInput =
  in_userId :: string
  in_lessonId :: string
  in_currentStep :: "int option"
  in_completedSteps :: "int list option"
  in_timeSpentSecs :: "int option"
  in_hintsUsed :: "int option"
  in_attempts :: "int option"

text \<open>
  The errors a method can end with. \<open>NotFound\<close> is what \<open>prisma.userProgress.update\<close>
  throws on a missing row. No method of the source constructs \<open>InvalidInput\<close>; the
  constructor exists so that statements about input rejection can be written down.
\<close>

datatype error = NotFound | InvalidInput

subsection \<open>The Prisma model \<open>userProgress\<close>\<close>

text \<open>
  The Prisma client (\<open>../client\<close>) and the Prisma schema of \<open>userProgress\<close> are not
  among the source files. Their part is modelled from the spec's description of the
  store (section 4.1): the table is a list of rows with the unique key
  \<open>(userId, lessonId)\<close>, and each call below carries a note of what it takes from
  there. Calls always reach the store: connection failures are not modelled.
\<close>

type_synonym table = "DbUserProgress list"

text \<open>What a call reads from outside the table: the clock and the id generator.\<close>

record env =
  now :: date
  freshId :: string

text \<open>The \<open>create\<close> argument of a Prisma call: only the named fields are given.\<close>

record CreateData =
  c_userId :: string
  c_lessonId :: string
  c_currentStep :: "int option"
  c_completedSteps :: "int list option"
  c_timeSpentSecs :: "int option"
  c_hintsUsed :: "int option"
  c_attempts :: "int option"

text \<open>
  One numeric field of the \<open>update\<close> (or \<open>data\<close>) argument of a Prisma call: not
  named, named with a value, or named with \<open>{increment: n}\<close>.
\<close>

datatype num_update = Untouched | SetValue int | Increment int

record UpdateData =
  u_currentStep :: num_update
  u_completedSteps :: "int list option"
  u_timeSpentSecs :: num_update
  u_hintsUsed :: num_update
  u_attempts :: num_update
  u_completedAt :: "date option"

definition no_update :: UpdateData where
  "no_update = \<lparr>u_currentStep = Untouched, u_completedSteps = None,
     u_timeSpentSecs = Untouched, u_hintsUsed = Untouched, u_attempts = Untouched,
     u_completedAt = None\<rparr>"

definition or_default :: "'a option \<Rightarrow> 'a \<Rightarrow> 'a" where
  "or_default v d = (case v of None \<Rightarrow> d | Some x \<Rightarrow> x)"

fun apply_num :: "num_update \<Rightarrow> int \<Rightarrow> int" where
  "apply_num Untouched old = old"
| "apply_num (SetValue v) old = v"
| "apply_num (Increment n) old = old + n"

text \<open>
  Modelled from the spec: the row a \<open>create\<close> argument produces under the schema of
  \<open>userProgress\<close>, which is missing. Fields that are not named take the defaults
  \<open>currentStep = 0\<close>, \<open>completedSteps = []\<close>, counters \<open>0\<close>; \<open>completedAt\<close> is
  absent, \<open>id\<close> is generated and \<open>startedAt\<close> is the time of creation.
\<close>

definition create_row :: "env \<Rightarrow> CreateData \<Rightarrow> DbUserProgress" where
  "create_row e c =
     \<lparr>id' = freshId e,
      userId = c_userId c,
      lessonId = c_lessonId c,
      completedSteps = or_default (c_completedSteps c) [],
      currentStep = or_default (c_currentStep c) 0,
      startedAt = now e,
      completedAt = None,
      timeSpentSecs = or_default (c_timeSpentSecs c) 0,
      hintsUsed = or_default (c_hintsUsed c) 0,
      attempts = or_default (c_attempts c) 0\<rparr>"

text \<open>
  Modelled from the spec: the effect of an \<open>update\<close> argument on a row in the missing
  Prisma client. A named non-counter field is overwritten, \<open>{increment: n}\<close> adds to
  the stored number, fields that are not named keep their value.
\<close>

definition update_row :: "UpdateData \<Rightarrow> DbUserProgress \<Rightarrow> DbUserProgress" where
  "update_row u r =
     r\<lparr>completedSteps := or_default (u_completedSteps u) (completedSteps r),
       currentStep := apply_num (u_currentStep u) (currentStep r),
       completedAt := (case u_completedAt u of None \<Rightarrow> completedAt r | Some d \<Rightarrow> Some d),
       timeSpentSecs := apply_num (u_timeSpentSecs u) (timeSpentSecs r),
       hintsUsed := apply_num (u_hintsUsed u) (hintsUsed r),
       attempts := apply_num (u_attempts u) (attempts r)\<rparr>"

definition has_key :: "string \<Rightarrow> string \<Rightarrow> DbUserProgress \<Rightarrow> bool" where
  "has_key u l r = (userId r = u \<and> lessonId r = l)"

text \<open>
  Modelled from the spec: \<open>findUnique({where: {userId_lessonId: {userId, lessonId}}})\<close>
  of the missing Prisma client, the store's \<open>get\<close>: the row with the key, if any.
\<close>

definition findUnique :: "string \<Rightarrow> string \<Rightarrow> table \<Rightarrow> DbUserProgress option" where
  "findUnique u l t = find (has_key u l) t"

text \<open>
  Modelled from the spec: \<open>findMany({where: {userId}})\<close> of the missing Prisma client,
  the store's \<open>getAll\<close> without an ordering: the rows of the user.
\<close>

definition findMany :: "string \<Rightarrow> table \<Rightarrow> DbUserProgress list" where
  "findMany u t = filter (\<lambda>r. userId r = u) t"

text \<open>The row with the key is rewritten in place; the other rows are kept.\<close>

fun replace_row :: "string \<Rightarrow> string \<Rightarrow> DbUserProgress \<Rightarrow> table \<Rightarrow> table" where
  "replace_row u l r' [] = []"
| "replace_row u l r' (r # rs) =
     (if has_key u l r then r' # rs else r # replace_row u l r' rs)"

text \<open>
  Modelled from the spec: \<open>upsert({where, create, update})\<close> of the missing Prisma client,
  the store's \<open>upsertMerge\<close>. With no row for the key the created row is added, else the
  row is updated; the stored row is returned with the new table.
\<close>

definition upsert ::
  "env \<Rightarrow> string \<Rightarrow> string \<Rightarrow> CreateData \<Rightarrow> UpdateData \<Rightarrow> table \<Rightarrow> DbUserProgress \<times> table" where
  "upsert e u l c upd t =
     (case findUnique u l t of
        None \<Rightarrow> (let r = create_row e c in (r, t @ [r]))
      | Some r \<Rightarrow> (let r' = update_row upd r in (r', replace_row u l r' t)))"

text \<open>
  Modelled from the spec: \<open>update({where, data})\<close> of the missing Prisma client, the
  store's \<open>setCompletedAt\<close>. It fails with \<open>NotFound\<close> when no row has the key and
  leaves the table as it is.
\<close>

definition update ::
  "string \<Rightarrow> string \<Rightarrow> UpdateData \<Rightarrow> table \<Rightarrow> (error + DbUserProgress) \<times> table" where
  "update u l upd t =
     (case findUnique u l t of
        None \<Rightarrow> (Inl NotFound, t)
      | Some r \<Rightarrow> (let r' = update_row upd r in (Inr r', replace_row u l r' t)))"

subsection \<open>The repository methods\<close>

text \<open>\<open>mapToDbProgress\<close> copies the ten fields of the Prisma row.\<close>

definition mapToDbProgress :: "DbUserProgress \<Rightarrow> DbUserProgress" where
  "mapToDbProgress progress =
     \<lparr>id' = id' progress,
      userId = userId progress,
      lessonId = lessonId progress,
      completedSteps = completedSteps progress,
      currentStep = currentStep progress,
      startedAt = startedAt progress,
      completedAt = completedAt progress,
      timeSpentSecs = timeSpentSecs progress,
      hintsUsed = hintsUsed progress,
      attempts = attempts progress\<rparr>"

definition getProgress ::
  "string \<Rightarrow> string \<Rightarrow> table \<Rightarrow> (error + DbUserProgress option) \<times> table" where
  "getProgress u l t =
     (case findUnique u l t of
        Some progress \<Rightarrow> (Inr (Some (mapToDbProgress progress)), t)
      | None \<Rightarrow> (Inr None, t))"

text \<open>
  In the \<open>update\<close> argument a field is spread in only when the input field is not
  \<open>undefined\<close>: \<open>currentStep\<close> and \<open>completedSteps\<close> as values, the three counters
  as increments.
\<close>

definition set_if_given :: "int option \<Rightarrow> num_update" where
  "set_if_given v = (case v of None \<Rightarrow> Untouched | Some x \<Rightarrow> SetValue x)"

definition increment_if_given :: "int option \<Rightarrow> num_update" where
  "increment_if_given v = (case v of None \<Rightarrow> Untouched | Some x \<Rightarrow> Increment x)"

definition upsertProgress ::
  "env \<Rightarrow> UpsertProgressInput \<Rightarrow> table \<Rightarrow> (error + DbUserProgress) \<times> table" where
  "upsertProgress e data t =
     (let (progress, t') =
        upsert e (in_userId data) (in_lessonId data)
          \<lparr>c_userId = in_userId data,
           c_lessonId = in_lessonId data,
           c_currentStep = Some (or_default (in_currentStep data) 0),
           c_completedSteps = Some (or_default (in_completedSteps data) []),
           c_timeSpentSecs = Some (or_default (in_timeSpentSecs data) 0),
           c_hintsUsed = Some (or_default (in_hintsUsed data) 0),
           c_attempts = Some (or_default (in_attempts data) 0)\<rparr>
          \<lparr>u_currentStep = set_if_given (in_currentStep data),
           u_completedSteps = in_completedSteps data,
           u_timeSpentSecs = increment_if_given (in_timeSpentSecs data),
           u_hintsUsed = increment_if_given (in_hintsUsed data),
           u_attempts = increment_if_given (in_attempts data),
           u_completedAt = None\<rparr>
          t
      in (Inr (mapToDbProgress progress), t'))"

definition markStepComplete ::
  "env \<Rightarrow> string \<Rightarrow> string \<Rightarrow> int \<Rightarrow> table \<Rightarrow> (error + DbUserProgress) \<times> table" where
  "markStepComplete e u l stepNumber t =
     (let existing = findUnique u l t;
          currentSteps = (case existing of None \<Rightarrow> [] | Some r \<Rightarrow> completedSteps r);
          updatedSteps = (if stepNumber \<in> set currentSteps then currentSteps
                          else currentSteps @ [stepNumber]);
          (progress, t') =
            upsert e u l
              \<lparr>c_userId = u,
               c_lessonId = l,
               c_currentStep = Some (stepNumber + 1),
               c_completedSteps = Some [stepNumber],
               c_timeSpentSecs = None,
               c_hintsUsed = None,
               c_attempts = Some 1\<rparr>
              (no_update
                 \<lparr>u_completedSteps := Some updatedSteps,
                  u_currentStep :=
                    SetValue (max (case existing of None \<Rightarrow> 0 | Some r \<Rightarrow> currentStep r)
                                  (stepNumber + 1)),
                  u_attempts := Increment 1\<rparr>)
              t
      in (Inr (mapToDbProgress progress), t'))"

definition addTimeSpent ::
  "env \<Rightarrow> string \<Rightarrow> string \<Rightarrow> int \<Rightarrow> table \<Rightarrow> (error + unit) \<times> table" where
  "addTimeSpent e u l seconds t =
     (let (progress, t') =
        upsert e u l
          \<lparr>c_userId = u,
           c_lessonId = l,
           c_currentStep = None,
           c_completedSteps = None,
           c_timeSpentSecs = Some seconds,
           c_hintsUsed = None,
           c_attempts = None\<rparr>
          (no_update\<lparr>u_timeSpentSecs := Increment seconds\<rparr>)
          t
      in (Inr (), t'))"

definition markLessonComplete ::
  "env \<Rightarrow> string \<Rightarrow> string \<Rightarrow> table \<Rightarrow> (error + DbUserProgress) \<times> table" where
  "markLessonComplete e u l t =
     (case update u l (no_update\<lparr>u_completedAt := Some (now e)\<rparr>) t of
        (Inl err, t') \<Rightarrow> (Inl err, t')
      | (Inr progress, t') \<Rightarrow> (Inr (mapToDbProgress progress), t'))"

text \<open>The object \<open>getStats\<close> resolves to.\<close>

record Stats =
  totalLessons :: int
  completedLessons :: int
  totalTimeSpent :: int
  totalHintsUsed :: int

definition getStats :: "string \<Rightarrow> table \<Rightarrow> (error + Stats) \<times> table" where
  "getStats u t =
     (let progressList = findMany u t;
          totalLessons = int (length progressList);
          completedLessons = int (length (filter (\<lambda>p. completedAt p \<noteq> None) progressList));
          totalTimeSpent = fold (\<lambda>p sum. sum + timeSpentSecs p) progressList 0;
          totalHintsUsed = fold (\<lambda>p sum. sum + hintsUsed p) progressList 0
      in (Inr \<lparr>totalLessons = totalLessons,
               completedLessons = completedLessons,
               totalTimeSpent = totalTimeSpent,
               totalHintsUsed = totalHintsUsed\<rparr>, t))"

subsection \<open>Sequences of calls\<close>

text \<open>
  A call of one of the four writing methods, and the table it leaves behind. A caller
  that runs calls one after the other passes the table of each call to the next.
\<close>

datatype tracker_op =
    UpsertProgress UpsertProgressInput
  | MarkStepComplete string string int
  | AddTimeSpent string string int
  | MarkLessonComplete string string

fun exec :: "env \<Rightarrow> tracker_op \<Rightarrow> table \<Rightarrow> table" where
  "exec e (UpsertProgress d) t = snd (upsertProgress e d t)"
| "exec e (MarkStepComplete u l n) t = snd (markStepComplete e u l n t)"
| "exec e (AddTimeSpent u l s) t = snd (addTimeSpent e u l s t)"
| "exec e (MarkLessonComplete u l) t = snd (markLessonComplete e u l t)"

text \<open>
  \<open>markStepComplete(u, l, n)\<close> called once for every element of a list of
  environments, each call on the table the previous one left. The outcome is that of the
  last call (\<open>None\<close> when no call was made).
\<close>

fun markStepComplete_repeated ::
  "env list \<Rightarrow> string \<Rightarrow> string \<Rightarrow> int \<Rightarrow> table \<Rightarrow> (error + DbUserProgress) option \<times> table" where
  "markStepComplete_repeated [] u l n t = (None, t)"
| "markStepComplete_repeated [e] u l n t =
     (let (res, t') = markStepComplete e u l n t in (Some res, t'))"
| "markStepComplete_repeated (e # es) u l n t =
     (let (res, t') = markStepComplete e u l n t
      in case res of Inl err \<Rightarrow> (Some (Inl err), t')
         | Inr p \<Rightarrow> markStepComplete_repeated es u l n t')"

subsection \<open>Predicates on records and calls\<close>

text \<open>
  The cursor points past every completed step: \<open>currentStep \<ge> max(completedSteps) + 1\<close>
  whenever \<open>completedSteps\<close> is not empty.
\<close>

definition step_inv :: "DbUserProgress \<Rightarrow> bool" where
  "step_inv r = (completedSteps r = [] \<or> Max (set (completedSteps r)) + 1 \<le> currentStep r)"

text \<open>
  The values \<open>upsertProgress\<close> stores for \<open>currentStep\<close> and
  \<open>completedSteps\<close> (the supplied one, else the stored one, else the default of a new
  row) have the cursor past every step.
\<close>

definition upsert_stores_valid_cursor :: "UpsertProgressInput \<Rightarrow> table \<Rightarrow> bool" where
  "upsert_stores_valid_cursor d t =
     (let stored = findUnique (in_userId d) (in_lessonId d) t;
          c = or_default (in_currentStep d)
                (case stored of None \<Rightarrow> 0 | Some r \<Rightarrow> currentStep r);
          cs = or_default (in_completedSteps d)
                 (case stored of None \<Rightarrow> [] | Some r \<Rightarrow> completedSteps r)
      in cs = [] \<or> Max (set cs) + 1 \<le> c)"

fun stores_valid_cursor :: "tracker_op \<Rightarrow> table \<Rightarrow> bool" where
  "stores_valid_cursor (UpsertProgress d) t = upsert_stores_valid_cursor d t"
| "stores_valid_cursor (MarkStepComplete u l n) t = True"
| "stores_valid_cursor (AddTimeSpent u l s) t = True"
| "stores_valid_cursor (MarkLessonComplete u l) t = True"

text \<open>A \<open>completedSteps\<close> list given to \<open>upsertProgress\<close> has no duplicates.\<close>

fun supplies_distinct_steps :: "tracker_op \<Rightarrow> bool" where
  "supplies_distinct_steps (UpsertProgress d) =
     (case in_completedSteps d of None \<Rightarrow> True | Some cs \<Rightarrow> distinct cs)"
| "supplies_distinct_steps (MarkStepComplete u l n) = True"
| "supplies_distinct_steps (AddTimeSpent u l s) = True"
| "supplies_distinct_steps (MarkLessonComplete u l) = True"

text \<open>The key a call works on.\<close>

fun op_key :: "tracker_op \<Rightarrow> string \<times> string" where
  "op_key (UpsertProgress d) = (in_userId d, in_lessonId d)"
| "op_key (MarkStepComplete u l n) = (u, l)"
| "op_key (AddTimeSpent u l s) = (u, l)"
| "op_key (MarkLessonComplete u l) = (u, l)"

subsection \<open>Example values\<close>

text \<open>
  A row as \<open>upsertProgress\<close> creates it on an empty table from the input
  \<open>{userId: 'u', lessonId: 'l', completedSteps: [1, 1]}\<close>.
\<close>

definition twice_listed_row :: DbUserProgress where
  "twice_listed_row =
     \<lparr>id' = ''p1'', userId = ''u'', lessonId = ''l'', completedSteps = [1, 1],
      currentStep = 0, startedAt = 0, completedAt = None,
      timeSpentSecs = 0, hintsUsed = 0, attempts = 0\<rparr>"

text \<open>A record in progress: steps 0 and 1 done, the cursor moved on to step 5.\<close>

definition sample_row :: DbUserProgress where
  "sample_row =
     \<lparr>id' = ''p7'', userId = ''u'', lessonId = ''l'', completedSteps = [0, 1],
      currentStep = 5, startedAt = 1000, completedAt = None,
      timeSpentSecs = 100, hintsUsed = 2, attempts = 3\<rparr>"

text \<open>The input \<open>{userId: u, lessonId: l}\<close>, every optional field \<open>undefined\<close>.\<close>

definition progress_input :: "string \<Rightarrow> string \<Rightarrow> UpsertProgressInput" where
  "progress_input u l =
     \<lparr>in_userId = u, in_lessonId = l, in_currentStep = None, in_completedSteps = None,
      in_timeSpentSecs = None, in_hintsUsed = None, in_attempts = None\<rparr>"

text \<open>The row \<open>markStepComplete('u', 'l', 0)\<close> creates on an empty table.\<close>

definition first_step_row :: DbUserProgress where
  "first_step_row =
     \<lparr>id' = ''p1'', userId = ''u'', lessonId = ''l'', completedSteps = [0],
      currentStep = 1, startedAt = 0, completedAt = None,
      timeSpentSecs = 0, hintsUsed = 0, attempts = 1\<rparr>"

text \<open>
  Three rows: user \<open>u\<close> has completed lesson \<open>A\<close> and started lesson \<open>B\<close>,
  user \<open>v\<close> has started lesson \<open>A\<close>.
\<close>

definition lesson_A_row :: DbUserProgress where
  "lesson_A_row =
     \<lparr>id' = ''p1'', userId = ''u'', lessonId = ''A'', completedSteps = [],
      currentStep = 0, startedAt = 10, completedAt = Some 20,
      timeSpentSecs = 100, hintsUsed = 2, attempts = 0\<rparr>"

definition other_user_row :: DbUserProgress where
  "other_user_row =
     \<lparr>id' = ''p2'', userId = ''v'', lessonId = ''A'', completedSteps = [],
      currentStep = 0, startedAt = 30, completedAt = None,
      timeSpentSecs = 7, hintsUsed = 0, attempts = 0\<rparr>"

definition lesson_B_row :: DbUserProgress where
  "lesson_B_row =
     \<lparr>id' = ''p3'', userId = ''u'', lessonId = ''B'', completedSteps = [],
      currentStep = 0, startedAt = 40, completedAt = None,
      timeSpentSecs = 50, hintsUsed = 1, attempts = 0\<rparr>"

section \<open>Properties\<close>

subsection \<open>The table\<close>

lemma mapToDbProgress_same: "mapToDbProgress p = p"
  by (cases p) (simp add: mapToDbProgress_def)

lemma findUnique_Some_key: "findUnique u l t = Some r \<Longrightarrow> has_key u l r \<and> r \<in> set t"
  unfolding findUnique_def by (induction t) (auto split: if_splits)

lemma findUnique_userId: "findUnique u l t = Some r \<Longrightarrow> userId r = u"
  by (drule findUnique_Some_key) (simp add: has_key_def)

lemma findUnique_lessonId: "findUnique u l t = Some r \<Longrightarrow> lessonId r = l"
  by (drule findUnique_Some_key) (simp add: has_key_def)

lemma findUnique_append:
  "findUnique u l (t @ [r]) =
     (case findUnique u l t of Some x \<Rightarrow> Some x
      | None \<Rightarrow> if has_key u l r then Some r else None)"
  unfolding findUnique_def by (induction t) auto

lemma findUnique_replace_same:
  "has_key u l r' \<Longrightarrow> findUnique u l t = Some r \<Longrightarrow> findUnique u l (replace_row u l r' t) = Some r'"
  unfolding findUnique_def by (induction t) auto

lemma findUnique_replace_other:
  "has_key u l r' \<Longrightarrow> (u', l') \<noteq> (u, l) \<Longrightarrow>
   findUnique u' l' (replace_row u l r' t) = findUnique u' l' t"
  unfolding findUnique_def by (induction t) (auto simp: has_key_def)

lemma frame_append:
  assumes "has_key u' l' p" and "u \<noteq> u' \<or> l \<noteq> l'"
  shows "findUnique u l (t @ [p]) = findUnique u l t"
proof -
  from assms have "\<not> has_key u l p" by (auto simp: has_key_def)
  then show ?thesis by (simp add: findUnique_append split: option.splits)
qed

lemma frame_replace:
  assumes "has_key u' l' p" and "u \<noteq> u' \<or> l \<noteq> l'"
  shows "findUnique u l (replace_row u' l' p t) = findUnique u l t"
  using assms unfolding findUnique_def by (induction t) (auto simp: has_key_def)

lemma filter_replace_row:
  "has_key u l r' \<Longrightarrow>
   filter (\<lambda>x. \<not> has_key u l x) (replace_row u l r' t) = filter (\<lambda>x. \<not> has_key u l x) t"
  by (induction t) auto

lemma set_replace_row: "set (replace_row u l r' t) \<subseteq> insert r' (set t)"
  by (induction t) auto

lemma length_replace_row: "length (replace_row u l r' t) = length t"
  by (induction t) auto

lemma all_rows_replace: "\<forall>r\<in>set t. P r \<Longrightarrow> P p \<Longrightarrow> \<forall>r\<in>set (replace_row u l p t). P r"
  using set_replace_row[of u l p t] by auto

lemma upsert_Some:
  "findUnique u l t = Some r \<Longrightarrow>
   upsert e u l c upd t = (update_row upd r, replace_row u l (update_row upd r) t)"
  by (simp add: upsert_def Let_def)

lemma upsert_None:
  "findUnique u l t = None \<Longrightarrow> upsert e u l c upd t = (create_row e c, t @ [create_row e c])"
  by (simp add: upsert_def Let_def)

subsection \<open>What each method returns and stores\<close>

lemma apply_set_if_given: "apply_num (set_if_given v) old = or_default v old"
  by (cases v) (simp_all add: set_if_given_def or_default_def)

lemma apply_increment_if_given: "apply_num (increment_if_given v) old = old + or_default v 0"
  by (cases v) (simp_all add: increment_if_given_def or_default_def)

lemma upsertProgress_None:
  "findUnique (in_userId d) (in_lessonId d) t = None \<Longrightarrow>
   upsertProgress e d t =
     (let p = \<lparr>id' = freshId e, userId = in_userId d, lessonId = in_lessonId d,
                completedSteps = or_default (in_completedSteps d) [],
                currentStep = or_default (in_currentStep d) 0,
                startedAt = now e, completedAt = None,
                timeSpentSecs = or_default (in_timeSpentSecs d) 0,
                hintsUsed = or_default (in_hintsUsed d) 0,
                attempts = or_default (in_attempts d) 0\<rparr>
      in (Inr p, t @ [p]))"
  by (simp add: upsertProgress_def Let_def upsert_None create_row_def or_default_def
       mapToDbProgress_same)

lemma upsertProgress_Some:
  "findUnique (in_userId d) (in_lessonId d) t = Some r \<Longrightarrow>
   upsertProgress e d t =
     (let p = r\<lparr>completedSteps := or_default (in_completedSteps d) (completedSteps r),
                 currentStep := or_default (in_currentStep d) (currentStep r),
                 timeSpentSecs := timeSpentSecs r + or_default (in_timeSpentSecs d) 0,
                 hintsUsed := hintsUsed r + or_default (in_hintsUsed d) 0,
                 attempts := attempts r + or_default (in_attempts d) 0\<rparr>
      in (Inr p, replace_row (in_userId d) (in_lessonId d) p t))"
  by (simp add: upsertProgress_def Let_def upsert_Some update_row_def mapToDbProgress_same
       apply_set_if_given apply_increment_if_given)

lemma findUnique_upsertProgress:
  "\<exists>p t'. upsertProgress e d t = (Inr p, t') \<and>
     findUnique (in_userId d) (in_lessonId d) t' = Some p \<and>
     completedSteps p = or_default (in_completedSteps d)
        (case findUnique (in_userId d) (in_lessonId d) t of None \<Rightarrow> [] | Some r \<Rightarrow> completedSteps r) \<and>
     currentStep p = or_default (in_currentStep d)
        (case findUnique (in_userId d) (in_lessonId d) t of None \<Rightarrow> 0 | Some r \<Rightarrow> currentStep r) \<and>
     timeSpentSecs p =
        (case findUnique (in_userId d) (in_lessonId d) t of None \<Rightarrow> 0 | Some r \<Rightarrow> timeSpentSecs r)
        + or_default (in_timeSpentSecs d) 0 \<and>
     hintsUsed p =
        (case findUnique (in_userId d) (in_lessonId d) t of None \<Rightarrow> 0 | Some r \<Rightarrow> hintsUsed r)
        + or_default (in_hintsUsed d) 0 \<and>
     attempts p =
        (case findUnique (in_userId d) (in_lessonId d) t of None \<Rightarrow> 0 | Some r \<Rightarrow> attempts r)
        + or_default (in_attempts d) 0 \<and>
     completedAt p =
        (case findUnique (in_userId d) (in_lessonId d) t of None \<Rightarrow> None | Some r \<Rightarrow> completedAt r)"
proof (cases "findUnique (in_userId d) (in_lessonId d) t")
  case None
  then show ?thesis
    by (simp add: upsertProgress_None Let_def findUnique_append has_key_def)
next
  case (Some r)
  let ?p = "r\<lparr>completedSteps := or_default (in_completedSteps d) (completedSteps r),
                 currentStep := or_default (in_currentStep d) (currentStep r),
                 timeSpentSecs := timeSpentSecs r + or_default (in_timeSpentSecs d) 0,
                 hintsUsed := hintsUsed r + or_default (in_hintsUsed d) 0,
                 attempts := attempts r + or_default (in_attempts d) 0\<rparr>"
  have "has_key (in_userId d) (in_lessonId d) ?p"
    using Some by (simp add: has_key_def findUnique_userId findUnique_lessonId)
  then have "findUnique (in_userId d) (in_lessonId d)
      (replace_row (in_userId d) (in_lessonId d) ?p t) = Some ?p"
    using Some by (rule findUnique_replace_same)
  with Some show ?thesis by (simp add: upsertProgress_Some Let_def)
qed

lemma upsertProgress_at:
  assumes "in_userId d = u" "in_lessonId d = l"
  shows "\<exists>p t'. upsertProgress e d t = (Inr p, t') \<and> findUnique u l t' = Some p \<and>
     currentStep p = or_default (in_currentStep d)
        (case findUnique u l t of None \<Rightarrow> 0 | Some r \<Rightarrow> currentStep r) \<and>
     timeSpentSecs p = (case findUnique u l t of None \<Rightarrow> 0 | Some r \<Rightarrow> timeSpentSecs r)
        + or_default (in_timeSpentSecs d) 0"
  using findUnique_upsertProgress[of e d t] unfolding assms by blast

lemma markStepComplete_None:
  "findUnique u l t = None \<Longrightarrow>
   markStepComplete e u l n t =
     (let p = \<lparr>id' = freshId e, userId = u, lessonId = l, completedSteps = [n],
                currentStep = n + 1, startedAt = now e, completedAt = None,
                timeSpentSecs = 0, hintsUsed = 0, attempts = 1\<rparr>
      in (Inr p, t @ [p]))"
  by (simp add: markStepComplete_def Let_def upsert_None create_row_def or_default_def
       mapToDbProgress_same)

lemma markStepComplete_Some:
  "findUnique u l t = Some r \<Longrightarrow>
   markStepComplete e u l n t =
     (let p = r\<lparr>completedSteps := (if n \<in> set (completedSteps r) then completedSteps r
                                     else completedSteps r @ [n]),
                 currentStep := max (currentStep r) (n + 1),
                 attempts := attempts r + 1\<rparr>
      in (Inr p, replace_row u l p t))"
  by (simp add: markStepComplete_def Let_def upsert_Some update_row_def or_default_def
       mapToDbProgress_same no_update_def)

lemma addTimeSpent_None:
  "findUnique u l t = None \<Longrightarrow>
   addTimeSpent e u l s t =
     (Inr (), t @ [\<lparr>id' = freshId e, userId = u, lessonId = l, completedSteps = [],
                     currentStep = 0, startedAt = now e, completedAt = None,
                     timeSpentSecs = s, hintsUsed = 0, attempts = 0\<rparr>])"
  by (simp add: addTimeSpent_def Let_def upsert_None create_row_def or_default_def)

lemma addTimeSpent_Some:
  "findUnique u l t = Some r \<Longrightarrow>
   addTimeSpent e u l s t =
     (Inr (), replace_row u l (r\<lparr>timeSpentSecs := timeSpentSecs r + s\<rparr>) t)"
  by (simp add: addTimeSpent_def Let_def upsert_Some update_row_def or_default_def no_update_def)

lemma markLessonComplete_None:
  "findUnique u l t = None \<Longrightarrow> markLessonComplete e u l t = (Inl NotFound, t)"
  by (simp add: markLessonComplete_def update_def)

lemma markLessonComplete_Some:
  "findUnique u l t = Some r \<Longrightarrow>
   markLessonComplete e u l t =
     (Inr (r\<lparr>completedAt := Some (now e)\<rparr>), replace_row u l (r\<lparr>completedAt := Some (now e)\<rparr>) t)"
  by (simp add: markLessonComplete_def update_def Let_def update_row_def or_default_def
       no_update_def mapToDbProgress_same)

text \<open>
  A property of rows that holds for every row of the table and for the row a call
  writes holds for every row of the table after the call.
\<close>

lemma exec_rows:
  assumes "\<forall>r\<in>set t. P r"
    and "\<And>d. op = UpsertProgress d \<Longrightarrow> \<forall>p. fst (upsertProgress e d t) = Inr p \<longrightarrow> P p"
    and "\<And>u l n. op = MarkStepComplete u l n \<Longrightarrow> \<forall>p. fst (markStepComplete e u l n t) = Inr p \<longrightarrow> P p"
    and "\<And>u l s r. op = AddTimeSpent u l s \<Longrightarrow>
           P (case findUnique u l t of
                None \<Rightarrow> \<lparr>id' = freshId e, userId = u, lessonId = l, completedSteps = [],
                         currentStep = 0, startedAt = now e, completedAt = None,
                         timeSpentSecs = s, hintsUsed = 0, attempts = 0\<rparr>
              | Some r \<Rightarrow> r\<lparr>timeSpentSecs := timeSpentSecs r + s\<rparr>)"
    and "\<And>u l r. op = MarkLessonComplete u l \<Longrightarrow> findUnique u l t = Some r \<Longrightarrow>
           P (r\<lparr>completedAt := Some (now e)\<rparr>)"
  shows "\<forall>r\<in>set (exec e op t). P r"
proof (cases op)
  case (UpsertProgress d)
  show ?thesis
  proof (cases "findUnique (in_userId d) (in_lessonId d) t")
    case None
    with assms(1) assms(2)[OF UpsertProgress] show ?thesis
      unfolding UpsertProgress by (simp add: upsertProgress_None Let_def)
  next
    case (Some r)
    with assms(2)[OF UpsertProgress] show ?thesis
      unfolding UpsertProgress
      by (simp add: upsertProgress_Some Let_def all_rows_replace[OF assms(1)])
  qed
next
  case (MarkStepComplete u l n)
  show ?thesis
  proof (cases "findUnique u l t")
    case None
    with assms(1) assms(3)[OF MarkStepComplete] show ?thesis
      unfolding MarkStepComplete by (simp add: markStepComplete_None Let_def)
  next
    case (Some r)
    with assms(3)[OF MarkStepComplete] show ?thesis
      unfolding MarkStepComplete
      by (simp add: markStepComplete_Some Let_def all_rows_replace[OF assms(1)])
  qed
next
  case (AddTimeSpent u l s)
  show ?thesis
  proof (cases "findUnique u l t")
    case None
    with assms(1) assms(4)[OF AddTimeSpent] show ?thesis
      unfolding AddTimeSpent by (simp add: addTimeSpent_None)
  next
    case (Some r)
    with assms(4)[OF AddTimeSpent] show ?thesis
      unfolding AddTimeSpent
      by (simp add: addTimeSpent_Some all_rows_replace[OF assms(1)])
  qed
next
  case (MarkLessonComplete u l)
  show ?thesis
  proof (cases "findUnique u l t")
    case None
    with assms(1) show ?thesis
      unfolding MarkLessonComplete by (simp add: markLessonComplete_None)
  next
    case (Some r)
    with assms(5)[OF MarkLessonComplete] show ?thesis
      unfolding MarkLessonComplete
      by (simp add: markLessonComplete_Some all_rows_replace[OF assms(1)])
  qed
qed

text \<open>
  A call leaves the record of every key other than its own as it was.
\<close>

lemma exec_frame:
  assumes "op_key op \<noteq> (u, l)"
  shows "findUnique u l (exec e op t) = findUnique u l t"
proof (cases op)
  case (UpsertProgress d)
  with assms have ne: "u \<noteq> in_userId d \<or> l \<noteq> in_lessonId d" by auto
  show ?thesis
  proof (cases "findUnique (in_userId d) (in_lessonId d) t")
    case None
    then show ?thesis unfolding UpsertProgress
      by (simp add: upsertProgress_None Let_def frame_append[OF _ ne] has_key_def)
  next
    case (Some r0)
    then have "has_key (in_userId d) (in_lessonId d) r0" by (simp add: findUnique_Some_key)
    with Some show ?thesis unfolding UpsertProgress
      by (simp add: upsertProgress_Some Let_def frame_replace[OF _ ne] has_key_def)
  qed
next
  case (MarkStepComplete u' l' n)
  with assms have ne: "u \<noteq> u' \<or> l \<noteq> l'" by auto
  show ?thesis
  proof (cases "findUnique u' l' t")
    case None
    then show ?thesis unfolding MarkStepComplete
      by (simp add: markStepComplete_None Let_def frame_append[OF _ ne] has_key_def)
  next
    case (Some r0)
    then have "has_key u' l' r0" by (simp add: findUnique_Some_key)
    with Some show ?thesis unfolding MarkStepComplete
      by (simp add: markStepComplete_Some Let_def frame_replace[OF _ ne] has_key_def)
  qed
next
  case (AddTimeSpent u' l' s)
  with assms have ne: "u \<noteq> u' \<or> l \<noteq> l'" by auto
  show ?thesis
  proof (cases "findUnique u' l' t")
    case None
    then show ?thesis unfolding AddTimeSpent
      by (simp add: addTimeSpent_None frame_append[OF _ ne] has_key_def)
  next
    case (Some r0)
    then have "has_key u' l' r0" by (simp add: findUnique_Some_key)
    with Some show ?thesis unfolding AddTimeSpent
      by (simp add: addTimeSpent_Some frame_replace[OF _ ne] has_key_def)
  qed
next
  case (MarkLessonComplete u' l')
  with assms have ne: "u \<noteq> u' \<or> l \<noteq> l'" by auto
  show ?thesis
  proof (cases "findUnique u' l' t")
    case None
    then show ?thesis unfolding MarkLessonComplete
      by (simp add: markLessonComplete_None)
  next
    case (Some r0)
    then have "has_key u' l' r0" by (simp add: findUnique_Some_key)
    with Some show ?thesis unfolding MarkLessonComplete
      by (simp add: markLessonComplete_Some frame_replace[OF _ ne] has_key_def)
  qed
qed

text \<open>
  The definitions to unfold when a call is run on a concrete table.
\<close>

lemmas run_defs =
  upsertProgress_def markStepComplete_def addTimeSpent_def markLessonComplete_def
  upsert_def update_def findUnique_def has_key_def create_row_def update_row_def
  or_default_def mapToDbProgress_def set_if_given_def increment_if_given_def
  no_update_def progress_input_def Let_def

subsection \<open>Repeated completion of one step\<close>

lemma count_list_at_most_once:
  "count_list xs n \<le> 1 \<Longrightarrow> count_list (if n \<in> set xs then xs else xs @ [n]) n = 1"
proof (cases "n \<in> set xs")
  case True
  assume "count_list xs n \<le> 1"
  moreover from True have "count_list xs n \<noteq> 0" by (simp add: count_list_0_iff)
  ultimately show ?thesis using True by simp
next
  case False
  then show ?thesis by (simp add: count_list_0_iff)
qed

lemma markStepComplete_once:
  assumes "count_list (case findUnique u l t of None \<Rightarrow> [] | Some r \<Rightarrow> completedSteps r) n \<le> 1"
  shows "\<exists>p t'. markStepComplete e u l n t = (Inr p, t') \<and> findUnique u l t' = Some p \<and>
           count_list (completedSteps p) n = 1 \<and> n + 1 \<le> currentStep p \<and>
           attempts p = (case findUnique u l t of None \<Rightarrow> 0 | Some r \<Rightarrow> attempts r) + 1"
proof (cases "findUnique u l t")
  case None
  then show ?thesis
    by (simp add: markStepComplete_None Let_def findUnique_append has_key_def)
next
  case (Some r)
  let ?p = "r\<lparr>completedSteps := (if n \<in> set (completedSteps r) then completedSteps r
                                     else completedSteps r @ [n]),
                 currentStep := max (currentStep r) (n + 1),
                 attempts := attempts r + 1\<rparr>"
  from Some have key: "has_key u l ?p" by (simp add: has_key_def findUnique_Some_key[unfolded has_key_def])
  from assms Some have "count_list (completedSteps r) n \<le> 1" by simp
  then have "count_list (completedSteps ?p) n = 1"
    using count_list_at_most_once[of "completedSteps r" n] by simp
  moreover have "findUnique u l (replace_row u l ?p t) = Some ?p"
    using key Some by (rule findUnique_replace_same)
  moreover have "markStepComplete e u l n t = (Inr ?p, replace_row u l ?p t)"
    using Some by (simp add: markStepComplete_Some Let_def)
  ultimately show ?thesis using Some by simp
qed

text \<open>
  Claim C1, as amended. Let \<open>markStepComplete(u, l, n)\<close> be called \<open>k \<ge> 1\<close> times
  in a row with the same \<open>n\<close>, starting from a table with no record for \<open>(u, l)\<close> or
  with a record whose \<open>completedSteps\<close> lists \<open>n\<close> at most once. Then every call
  succeeds, and the record stored afterwards (which is the one the last call returns)
  lists \<open>n\<close> exactly once in \<open>completedSteps\<close>, has \<open>currentStep \<ge> n + 1\<close>, and
  has \<open>attempts\<close> equal to its value before the calls (0 when there was no record)
  plus \<open>k\<close>.
\<close>

theorem markStepComplete_repeated_same_step:
  assumes "es \<noteq> []"
    and "count_list (case findUnique u l t of None \<Rightarrow> [] | Some r \<Rightarrow> completedSteps r) n \<le> 1"
  shows "\<exists>p t'. markStepComplete_repeated es u l n t = (Some (Inr p), t') \<and>
           findUnique u l t' = Some p \<and>
           count_list (completedSteps p) n = 1 \<and>
           n + 1 \<le> currentStep p \<and>
           attempts p = (case findUnique u l t of None \<Rightarrow> 0 | Some r \<Rightarrow> attempts r)
                          + int (length es)"
  using assms
proof (induction es arbitrary: t rule: list_nonempty_induct)
  case (single e)
  from markStepComplete_once[OF single.prems, of e] show ?case by auto
next
  case (cons e es)
  from markStepComplete_once[OF cons.prems, of e]
  obtain p1 t1 where first: "markStepComplete e u l n t = (Inr p1, t1)"
    and stored: "findUnique u l t1 = Some p1"
    and once: "count_list (completedSteps p1) n = 1"
    and att: "attempts p1 = (case findUnique u l t of None \<Rightarrow> 0 | Some r \<Rightarrow> attempts r) + 1"
    by blast
  from stored once
  have "count_list (case findUnique u l t1 of None \<Rightarrow> [] | Some r \<Rightarrow> completedSteps r) n \<le> 1"
    by simp
  from cons.IH[OF this] obtain p t' where
    rest: "markStepComplete_repeated es u l n t1 = (Some (Inr p), t')"
    and res: "findUnique u l t' = Some p" "count_list (completedSteps p) n = 1"
      "n + 1 \<le> currentStep p"
    and att': "attempts p = (case findUnique u l t1 of None \<Rightarrow> 0 | Some r \<Rightarrow> attempts r)
                 + int (length es)"
    by blast
  from \<open>es \<noteq> []\<close> obtain e' es' where es: "es = e' # es'" by (cases es) auto
  have "markStepComplete_repeated (e # es) u l n t = (Some (Inr p), t')"
    using first rest unfolding es by simp
  moreover have "attempts p = (case findUnique u l t of None \<Rightarrow> 0 | Some r \<Rightarrow> attempts r)
                   + int (length (e # es))"
    using att' att stored by simp
  ultimately show ?case using res by blast
qed

text \<open>
  Three calls for step 4 on a key with no record.
\<close>

theorem markStepComplete_repeated_same_step_witness:
  "[\<lparr>now = 10, freshId = ''a''\<rparr>, \<lparr>now = 20, freshId = ''b''\<rparr>, \<lparr>now = 30, freshId = ''c''\<rparr>] \<noteq> []
   \<and> count_list (case findUnique ''u'' ''l'' [] of None \<Rightarrow> [] | Some r \<Rightarrow> completedSteps r) 4 \<le> 1
   \<and> (\<exists>p t'. markStepComplete_repeated
                [\<lparr>now = 10, freshId = ''a''\<rparr>, \<lparr>now = 20, freshId = ''b''\<rparr>,
                 \<lparr>now = 30, freshId = ''c''\<rparr>] ''u'' ''l'' 4 [] = (Some (Inr p), t')
        \<and> findUnique ''u'' ''l'' t' = Some p
        \<and> count_list (completedSteps p) 4 = 1
        \<and> 4 + 1 \<le> currentStep p
        \<and> attempts p = 0 + 3)"
  using markStepComplete_repeated_same_step
    [of "[\<lparr>now = 10, freshId = ''a''\<rparr>, \<lparr>now = 20, freshId = ''b''\<rparr>, \<lparr>now = 30, freshId = ''c''\<rparr>]"
        "''u''" "''l''" "[]" 4]
  by (simp add: findUnique_def)

text \<open>
  The restriction on the starting record is needed. \<open>upsertProgress\<close> stores the
  list it is given, so a record can list a step twice; \<open>markStepComplete\<close> on that
  step then keeps the list as it is, and the step is listed twice afterwards.
\<close>

theorem markStepComplete_repeated_counterexample:
  "upsertProgress \<lparr>now = 0, freshId = ''p1''\<rparr>
     \<lparr>in_userId = ''u'', in_lessonId = ''l'', in_currentStep = None,
      in_completedSteps = Some [1, 1], in_timeSpentSecs = None, in_hintsUsed = None,
      in_attempts = None\<rparr> [] = (Inr twice_listed_row, [twice_listed_row])
   \<and> markStepComplete_repeated [\<lparr>now = 5, freshId = ''p2''\<rparr>] ''u'' ''l'' 1 [twice_listed_row]
       = (Some (Inr (twice_listed_row\<lparr>currentStep := 2, attempts := 1\<rparr>)),
          [twice_listed_row\<lparr>currentStep := 2, attempts := 1\<rparr>])
   \<and> count_list (completedSteps (twice_listed_row\<lparr>currentStep := 2, attempts := 1\<rparr>)) 1 = 2"
  by (simp add: upsertProgress_def markStepComplete_def upsert_def findUnique_def has_key_def
        create_row_def update_row_def or_default_def mapToDbProgress_def twice_listed_row_def
        set_if_given_def increment_if_given_def no_update_def Let_def)

subsection \<open>The cursor of \<open>markStepComplete\<close>\<close>

text \<open>
  Claim C2. On an existing record, \<open>markStepComplete(u, l, stepNumber)\<close> stores and
  returns \<open>currentStep = max(existing currentStep, stepNumber + 1)\<close>, so the cursor
  never decreases. On a key with no record, \<open>markStepComplete(u, l, 0)\<close> followed by
  \<open>markStepComplete(u, l, 2)\<close> yields \<open>completedSteps = [0, 2]\<close>,
  \<open>currentStep = 3\<close> and \<open>attempts = 2\<close>.
\<close>

theorem markStepComplete_cursor_max:
  "(findUnique u l t = Some r \<longrightarrow>
      (\<exists>p t'. markStepComplete e u l n t = (Inr p, t') \<and> findUnique u l t' = Some p \<and>
         currentStep p = max (currentStep r) (n + 1) \<and> currentStep r \<le> currentStep p))
   \<and> (findUnique u l t = None \<longrightarrow>
      (\<exists>p1 t1 p2 t2. markStepComplete e1 u l 0 t = (Inr p1, t1) \<and>
         markStepComplete e2 u l 2 t1 = (Inr p2, t2) \<and> findUnique u l t2 = Some p2 \<and>
         completedSteps p2 = [0, 2] \<and> currentStep p2 = 3 \<and> attempts p2 = 2))"
proof (intro conjI impI)
  assume ex: "findUnique u l t = Some r"
  let ?p = "r\<lparr>completedSteps := (if n \<in> set (completedSteps r) then completedSteps r
                                     else completedSteps r @ [n]),
                 currentStep := max (currentStep r) (n + 1),
                 attempts := attempts r + 1\<rparr>"
  have "has_key u l ?p"
    using ex by (simp add: has_key_def findUnique_userId findUnique_lessonId)
  then have "findUnique u l (replace_row u l ?p t) = Some ?p"
    using ex by (rule findUnique_replace_same)
  moreover have "markStepComplete e u l n t = (Inr ?p, replace_row u l ?p t)"
    using ex by (simp add: markStepComplete_Some Let_def)
  ultimately show "\<exists>p t'. markStepComplete e u l n t = (Inr p, t') \<and>
      findUnique u l t' = Some p \<and> currentStep p = max (currentStep r) (n + 1) \<and>
      currentStep r \<le> currentStep p"
    by simp
next
  assume none: "findUnique u l t = None"
  let ?p1 = "\<lparr>id' = freshId e1, userId = u, lessonId = l, completedSteps = [0],
              currentStep = 0 + 1, startedAt = now e1, completedAt = None,
              timeSpentSecs = 0, hintsUsed = 0, attempts = 1\<rparr>"
  let ?p2 = "?p1\<lparr>completedSteps := [0, 2], currentStep := 3, attempts := 2\<rparr>"
  have first: "markStepComplete e1 u l 0 t = (Inr ?p1, t @ [?p1])"
    using none by (simp add: markStepComplete_None Let_def)
  have stored: "findUnique u l (t @ [?p1]) = Some ?p1"
    using none by (simp add: findUnique_append has_key_def)
  have second: "markStepComplete e2 u l 2 (t @ [?p1]) = (Inr ?p2, replace_row u l ?p2 (t @ [?p1]))"
    using stored by (simp add: markStepComplete_Some Let_def)
  have "has_key u l ?p2" by (simp add: has_key_def)
  then have "findUnique u l (replace_row u l ?p2 (t @ [?p1])) = Some ?p2"
    using stored by (rule findUnique_replace_same)
  with first second show "\<exists>p1 t1 p2 t2. markStepComplete e1 u l 0 t = (Inr p1, t1) \<and>
         markStepComplete e2 u l 2 t1 = (Inr p2, t2) \<and> findUnique u l t2 = Some p2 \<and>
         completedSteps p2 = [0, 2] \<and> currentStep p2 = 3 \<and> attempts p2 = 2"
    by simp
qed

text \<open>
  An already completed step on a record whose cursor is at 5, and the two calls on an
  empty table.
\<close>

theorem markStepComplete_cursor_max_witness:
  "findUnique ''u'' ''l'' [sample_row] = Some sample_row
   \<and> (\<exists>p t'. markStepComplete \<lparr>now = 2000, freshId = ''p8''\<rparr> ''u'' ''l'' 1 [sample_row] = (Inr p, t')
         \<and> findUnique ''u'' ''l'' t' = Some p \<and> currentStep p = 5
         \<and> currentStep sample_row \<le> currentStep p)
   \<and> findUnique ''u'' ''l'' [] = None
   \<and> (\<exists>p1 t1 p2 t2.
         markStepComplete \<lparr>now = 2000, freshId = ''p8''\<rparr> ''u'' ''l'' 0 [] = (Inr p1, t1)
         \<and> markStepComplete \<lparr>now = 3000, freshId = ''p9''\<rparr> ''u'' ''l'' 2 t1 = (Inr p2, t2)
         \<and> findUnique ''u'' ''l'' t2 = Some p2
         \<and> completedSteps p2 = [0, 2] \<and> currentStep p2 = 3 \<and> attempts p2 = 2)"
proof -
  have stored: "findUnique ''u'' ''l'' [sample_row] = Some sample_row"
    by (simp add: findUnique_def has_key_def sample_row_def)
  have fresh: "findUnique ''u'' ''l'' [] = None"
    by (simp add: findUnique_def)
  have "currentStep sample_row = 5" by (simp add: sample_row_def)
  with stored fresh
    markStepComplete_cursor_max
      [where u = "''u''" and l = "''l''" and t = "[sample_row]" and r = sample_row
         and e = "\<lparr>now = 2000, freshId = ''p8''\<rparr>" and n = 1]
    markStepComplete_cursor_max
      [where u = "''u''" and l = "''l''" and t = "[]"
         and ?e1.0 = "\<lparr>now = 2000, freshId = ''p8''\<rparr>"
         and ?e2.0 = "\<lparr>now = 3000, freshId = ''p9''\<rparr>"]
  show ?thesis by simp
qed

subsection \<open>Replace and increment in \<open>upsertProgress\<close>\<close>

text \<open>
  Claim C3. \<open>upsertProgress\<close> replaces \<open>currentStep\<close> and \<open>completedSteps\<close>
  and increments the three counters. For any key and any table:
  \<^item> two calls with \<open>timeSpentSecs: 30\<close> leave \<open>timeSpentSecs\<close> at its value before
    the calls plus 60, which is 60 on a key with no record;
  \<^item> two calls with \<open>currentStep: 3\<close> leave \<open>currentStep = 3\<close>;
  \<^item> a call with \<open>currentStep: 5\<close> followed by one with \<open>currentStep: 3\<close> leaves
    \<open>currentStep = 3\<close>;
  \<^item> in general, after one call each of \<open>currentStep\<close> and \<open>completedSteps\<close> is the
    supplied value, or else the stored one (the default \<open>0\<close>, \<open>[]\<close> on creation), and
    each counter is the stored value (\<open>0\<close> on creation) plus the supplied one.
\<close>

theorem upsertProgress_replace_and_increment:
  "(\<exists>p1 t1 p2 t2.
      upsertProgress e1 ((progress_input u l)\<lparr>in_timeSpentSecs := Some 30\<rparr>) t = (Inr p1, t1) \<and>
      upsertProgress e2 ((progress_input u l)\<lparr>in_timeSpentSecs := Some 30\<rparr>) t1 = (Inr p2, t2) \<and>
      findUnique u l t2 = Some p2 \<and>
      timeSpentSecs p2 = (case findUnique u l t of None \<Rightarrow> 0 | Some r \<Rightarrow> timeSpentSecs r) + 60)
   \<and> (\<exists>p1 t1 p2 t2.
      upsertProgress e1 ((progress_input u l)\<lparr>in_currentStep := Some 3\<rparr>) t = (Inr p1, t1) \<and>
      upsertProgress e2 ((progress_input u l)\<lparr>in_currentStep := Some 3\<rparr>) t1 = (Inr p2, t2) \<and>
      findUnique u l t2 = Some p2 \<and> currentStep p1 = 3 \<and> currentStep p2 = 3)
   \<and> (\<exists>p1 t1 p2 t2.
      upsertProgress e1 ((progress_input u l)\<lparr>in_currentStep := Some 5\<rparr>) t = (Inr p1, t1) \<and>
      upsertProgress e2 ((progress_input u l)\<lparr>in_currentStep := Some 3\<rparr>) t1 = (Inr p2, t2) \<and>
      findUnique u l t2 = Some p2 \<and> currentStep p1 = 5 \<and> currentStep p2 = 3)
   \<and> (\<exists>p t'. upsertProgress e d t = (Inr p, t') \<and>
      findUnique (in_userId d) (in_lessonId d) t' = Some p \<and>
      currentStep p = (case in_currentStep d of Some c \<Rightarrow> c
         | None \<Rightarrow> (case findUnique (in_userId d) (in_lessonId d) t of
                      None \<Rightarrow> 0 | Some r \<Rightarrow> currentStep r)) \<and>
      completedSteps p = (case in_completedSteps d of Some cs \<Rightarrow> cs
         | None \<Rightarrow> (case findUnique (in_userId d) (in_lessonId d) t of
                      None \<Rightarrow> [] | Some r \<Rightarrow> completedSteps r)) \<and>
      timeSpentSecs p =
        (case findUnique (in_userId d) (in_lessonId d) t of None \<Rightarrow> 0 | Some r \<Rightarrow> timeSpentSecs r)
        + (case in_timeSpentSecs d of None \<Rightarrow> 0 | Some n \<Rightarrow> n) \<and>
      hintsUsed p =
        (case findUnique (in_userId d) (in_lessonId d) t of None \<Rightarrow> 0 | Some r \<Rightarrow> hintsUsed r)
        + (case in_hintsUsed d of None \<Rightarrow> 0 | Some n \<Rightarrow> n) \<and>
      attempts p =
        (case findUnique (in_userId d) (in_lessonId d) t of None \<Rightarrow> 0 | Some r \<Rightarrow> attempts r)
        + (case in_attempts d of None \<Rightarrow> 0 | Some n \<Rightarrow> n))"
proof (intro conjI)
  let ?d = "(progress_input u l)\<lparr>in_timeSpentSecs := Some 30\<rparr>"
  have key: "in_userId ?d = u" "in_lessonId ?d = l" by (simp_all add: progress_input_def)
  have given: "or_default (in_timeSpentSecs ?d) 0 = 30" by (simp add: or_default_def)
  from upsertProgress_at[OF key, of e1 t] obtain p1 t1 where
    one: "upsertProgress e1 ?d t = (Inr p1, t1)" "findUnique u l t1 = Some p1"
      "timeSpentSecs p1 = (case findUnique u l t of None \<Rightarrow> 0 | Some r \<Rightarrow> timeSpentSecs r) + 30"
    unfolding given by blast
  from upsertProgress_at[OF key, of e2 t1] obtain p2 t2 where
    two: "upsertProgress e2 ?d t1 = (Inr p2, t2)" "findUnique u l t2 = Some p2"
      "timeSpentSecs p2 = (case findUnique u l t1 of None \<Rightarrow> 0 | Some r \<Rightarrow> timeSpentSecs r) + 30"
    unfolding given by blast
  from one two show "\<exists>p1 t1 p2 t2.
      upsertProgress e1 ?d t = (Inr p1, t1) \<and> upsertProgress e2 ?d t1 = (Inr p2, t2) \<and>
      findUnique u l t2 = Some p2 \<and>
      timeSpentSecs p2 = (case findUnique u l t of None \<Rightarrow> 0 | Some r \<Rightarrow> timeSpentSecs r) + 60"
    by simp
next
  let ?d = "(progress_input u l)\<lparr>in_currentStep := Some 3\<rparr>"
  have key: "in_userId ?d = u" "in_lessonId ?d = l" by (simp_all add: progress_input_def)
  have given: "or_default (in_currentStep ?d) c = 3" for c by (simp add: or_default_def)
  from upsertProgress_at[OF key, of e1 t] obtain p1 t1 where
    one: "upsertProgress e1 ?d t = (Inr p1, t1)" "currentStep p1 = 3"
    unfolding given by blast
  from upsertProgress_at[OF key, of e2 t1] obtain p2 t2 where
    two: "upsertProgress e2 ?d t1 = (Inr p2, t2)" "findUnique u l t2 = Some p2"
      "currentStep p2 = 3"
    unfolding given by blast
  from one two show "\<exists>p1 t1 p2 t2.
      upsertProgress e1 ?d t = (Inr p1, t1) \<and> upsertProgress e2 ?d t1 = (Inr p2, t2) \<and>
      findUnique u l t2 = Some p2 \<and> currentStep p1 = 3 \<and> currentStep p2 = 3"
    by simp
next
  let ?d5 = "(progress_input u l)\<lparr>in_currentStep := Some 5\<rparr>"
  let ?d3 = "(progress_input u l)\<lparr>in_currentStep := Some 3\<rparr>"
  have key5: "in_userId ?d5 = u" "in_lessonId ?d5 = l"
    and key3: "in_userId ?d3 = u" "in_lessonId ?d3 = l"
    by (simp_all add: progress_input_def)
  have given: "or_default (in_currentStep ?d5) c = 5" "or_default (in_currentStep ?d3) c = 3" for c
    by (simp_all add: or_default_def)
  from upsertProgress_at[OF key5, of e1 t] obtain p1 t1 where
    one: "upsertProgress e1 ?d5 t = (Inr p1, t1)" "currentStep p1 = 5"
    unfolding given by blast
  from upsertProgress_at[OF key3, of e2 t1] obtain p2 t2 where
    two: "upsertProgress e2 ?d3 t1 = (Inr p2, t2)" "findUnique u l t2 = Some p2"
      "currentStep p2 = 3"
    unfolding given by blast
  from one two show "\<exists>p1 t1 p2 t2.
      upsertProgress e1 ?d5 t = (Inr p1, t1) \<and> upsertProgress e2 ?d3 t1 = (Inr p2, t2) \<and>
      findUnique u l t2 = Some p2 \<and> currentStep p1 = 5 \<and> currentStep p2 = 3"
    by simp
next
  from findUnique_upsertProgress[of e d t]
  show "\<exists>p t'. upsertProgress e d t = (Inr p, t') \<and>
      findUnique (in_userId d) (in_lessonId d) t' = Some p \<and>
      currentStep p = (case in_currentStep d of Some c \<Rightarrow> c
         | None \<Rightarrow> (case findUnique (in_userId d) (in_lessonId d) t of
                      None \<Rightarrow> 0 | Some r \<Rightarrow> currentStep r)) \<and>
      completedSteps p = (case in_completedSteps d of Some cs \<Rightarrow> cs
         | None \<Rightarrow> (case findUnique (in_userId d) (in_lessonId d) t of
                      None \<Rightarrow> [] | Some r \<Rightarrow> completedSteps r)) \<and>
      timeSpentSecs p =
        (case findUnique (in_userId d) (in_lessonId d) t of None \<Rightarrow> 0 | Some r \<Rightarrow> timeSpentSecs r)
        + (case in_timeSpentSecs d of None \<Rightarrow> 0 | Some n \<Rightarrow> n) \<and>
      hintsUsed p =
        (case findUnique (in_userId d) (in_lessonId d) t of None \<Rightarrow> 0 | Some r \<Rightarrow> hintsUsed r)
        + (case in_hintsUsed d of None \<Rightarrow> 0 | Some n \<Rightarrow> n) \<and>
      attempts p =
        (case findUnique (in_userId d) (in_lessonId d) t of None \<Rightarrow> 0 | Some r \<Rightarrow> attempts r)
        + (case in_attempts d of None \<Rightarrow> 0 | Some n \<Rightarrow> n)"
    by (auto simp: or_default_def split: option.splits)
qed

text \<open>
  The time scenario on an empty table, the cursor scenario on a record whose cursor is
  at 5.
\<close>

theorem upsertProgress_replace_and_increment_witness:
  "(\<exists>p1 t1 p2 t2.
      upsertProgress \<lparr>now = 10, freshId = ''a''\<rparr> ((progress_input ''u'' ''l'')\<lparr>in_timeSpentSecs := Some 30\<rparr>) [] = (Inr p1, t1) \<and>
      upsertProgress \<lparr>now = 20, freshId = ''b''\<rparr> ((progress_input ''u'' ''l'')\<lparr>in_timeSpentSecs := Some 30\<rparr>) t1 = (Inr p2, t2) \<and>
      findUnique ''u'' ''l'' t2 = Some p2 \<and> timeSpentSecs p2 = 60)
   \<and> (\<exists>p1 t1 p2 t2.
      upsertProgress \<lparr>now = 10, freshId = ''a''\<rparr> ((progress_input ''u'' ''l'')\<lparr>in_currentStep := Some 5\<rparr>) [sample_row] = (Inr p1, t1) \<and>
      upsertProgress \<lparr>now = 20, freshId = ''b''\<rparr> ((progress_input ''u'' ''l'')\<lparr>in_currentStep := Some 3\<rparr>) t1 = (Inr p2, t2) \<and>
      findUnique ''u'' ''l'' t2 = Some p2 \<and> currentStep p1 = 5 \<and> currentStep p2 = 3)"
  using upsertProgress_replace_and_increment
      [where ?e1.0 = "\<lparr>now = 10, freshId = ''a''\<rparr>" and ?e2.0 = "\<lparr>now = 20, freshId = ''b''\<rparr>"
         and u = "''u''" and l = "''l''" and t = "[]"]
    upsertProgress_replace_and_increment
      [where ?e1.0 = "\<lparr>now = 10, freshId = ''a''\<rparr>" and ?e2.0 = "\<lparr>now = 20, freshId = ''b''\<rparr>"
         and u = "''u''" and l = "''l''" and t = "[sample_row]"]
  by (simp add: findUnique_def)

subsection \<open>\<open>markLessonComplete\<close> needs a record\<close>

text \<open>
  Claim C4. \<open>markLessonComplete(userId, lessonId)\<close> on a key with no record fails with
  \<open>NotFound\<close> and leaves the table as it was, so no record is created; on an existing
  record it stores and returns the record with \<open>completedAt\<close> set to the current time.
\<close>

theorem markLessonComplete_requires_record:
  "(findUnique u l t = None \<longrightarrow> markLessonComplete e u l t = (Inl NotFound, t))
   \<and> (findUnique u l t = Some r \<longrightarrow>
        markLessonComplete e u l t =
          (Inr (r\<lparr>completedAt := Some (now e)\<rparr>),
           replace_row u l (r\<lparr>completedAt := Some (now e)\<rparr>) t)
        \<and> findUnique u l (replace_row u l (r\<lparr>completedAt := Some (now e)\<rparr>) t)
            = Some (r\<lparr>completedAt := Some (now e)\<rparr>))"
proof (intro conjI impI)
  assume "findUnique u l t = None"
  then show "markLessonComplete e u l t = (Inl NotFound, t)"
    by (rule markLessonComplete_None)
next
  assume "findUnique u l t = Some r"
  then show "markLessonComplete e u l t =
          (Inr (r\<lparr>completedAt := Some (now e)\<rparr>),
           replace_row u l (r\<lparr>completedAt := Some (now e)\<rparr>) t)"
    by (rule markLessonComplete_Some)
next
  assume ex: "findUnique u l t = Some r"
  then have "has_key u l (r\<lparr>completedAt := Some (now e)\<rparr>)"
    by (simp add: has_key_def findUnique_userId findUnique_lessonId)
  then show "findUnique u l (replace_row u l (r\<lparr>completedAt := Some (now e)\<rparr>) t)
            = Some (r\<lparr>completedAt := Some (now e)\<rparr>)"
    using ex by (rule findUnique_replace_same)
qed

theorem markLessonComplete_requires_record_witness:
  "findUnique ''u'' ''l'' [sample_row\<lparr>lessonId := ''k''\<rparr>] = None
   \<and> markLessonComplete \<lparr>now = 5000, freshId = ''z''\<rparr> ''u'' ''l'' [sample_row\<lparr>lessonId := ''k''\<rparr>]
       = (Inl NotFound, [sample_row\<lparr>lessonId := ''k''\<rparr>])
   \<and> findUnique ''u'' ''l'' [sample_row] = Some sample_row
   \<and> markLessonComplete \<lparr>now = 5000, freshId = ''z''\<rparr> ''u'' ''l'' [sample_row]
       = (Inr (sample_row\<lparr>completedAt := Some 5000\<rparr>), [sample_row\<lparr>completedAt := Some 5000\<rparr>])"
proof -
  have absent: "findUnique ''u'' ''l'' [sample_row\<lparr>lessonId := ''k''\<rparr>] = None"
    by (simp add: findUnique_def has_key_def sample_row_def)
  have stored: "findUnique ''u'' ''l'' [sample_row] = Some sample_row"
    by (simp add: findUnique_def has_key_def sample_row_def)
  have key: "has_key ''u'' ''l'' sample_row" by (simp add: has_key_def sample_row_def)
  from absent stored key
    markLessonComplete_requires_record
      [where u = "''u''" and l = "''l''" and t = "[sample_row\<lparr>lessonId := ''k''\<rparr>]"
         and e = "\<lparr>now = 5000, freshId = ''z''\<rparr>"]
    markLessonComplete_requires_record
      [where u = "''u''" and l = "''l''" and t = "[sample_row]" and r = sample_row
         and e = "\<lparr>now = 5000, freshId = ''z''\<rparr>"]
  show ?thesis by simp
qed

subsection \<open>Negative arguments\<close>

text \<open>
  Claim C5, as amended. The repository validates nothing: for every \<open>seconds\<close>,
  negative ones included, \<open>addTimeSpent(userId, lessonId, seconds)\<close> succeeds and leaves
  \<open>timeSpentSecs\<close> at its former value (0 when there was no record) plus
  \<open>seconds\<close>; for every \<open>stepNumber\<close>, negative ones included,
  \<open>markStepComplete\<close> succeeds and the stored record lists the step as completed.
  Neither call ends with \<open>InvalidInput\<close>.
\<close>

theorem no_input_validation:
  "(\<exists>t'. addTimeSpent e u l seconds t = (Inr (), t') \<and>
      map_option timeSpentSecs (findUnique u l t')
        = Some ((case findUnique u l t of None \<Rightarrow> 0 | Some r \<Rightarrow> timeSpentSecs r) + seconds))
   \<and> (\<exists>p t'. markStepComplete e u l stepNumber t = (Inr p, t') \<and> findUnique u l t' = Some p \<and>
         stepNumber \<in> set (completedSteps p))"
proof (cases "findUnique u l t")
  case None
  then show ?thesis
    by (simp add: addTimeSpent_None markStepComplete_None Let_def findUnique_append has_key_def)
next
  case (Some r)
  let ?a = "r\<lparr>timeSpentSecs := timeSpentSecs r + seconds\<rparr>"
  let ?p = "r\<lparr>completedSteps := (if stepNumber \<in> set (completedSteps r) then completedSteps r
                                     else completedSteps r @ [stepNumber]),
                 currentStep := max (currentStep r) (stepNumber + 1),
                 attempts := attempts r + 1\<rparr>"
  have "has_key u l ?a" "has_key u l ?p"
    using Some by (simp_all add: has_key_def findUnique_userId findUnique_lessonId)
  then have "findUnique u l (replace_row u l ?a t) = Some ?a"
    and "findUnique u l (replace_row u l ?p t) = Some ?p"
    using Some by (simp_all add: findUnique_replace_same)
  then show ?thesis
    using Some by (simp add: addTimeSpent_Some markStepComplete_Some Let_def)
qed

theorem no_input_validation_witness:
  "(\<exists>t'. addTimeSpent \<lparr>now = 2000, freshId = ''p8''\<rparr> ''u'' ''l'' (- 500) [sample_row] = (Inr (), t')
      \<and> map_option timeSpentSecs (findUnique ''u'' ''l'' t') = Some (- 400))
   \<and> (\<exists>p t'. markStepComplete \<lparr>now = 2000, freshId = ''p8''\<rparr> ''u'' ''l'' (- 3) [sample_row] = (Inr p, t')
      \<and> findUnique ''u'' ''l'' t' = Some p \<and> - 3 \<in> set (completedSteps p))"
proof -
  have stored: "findUnique ''u'' ''l'' [sample_row] = Some sample_row"
    by (simp add: findUnique_def has_key_def sample_row_def)
  have "timeSpentSecs sample_row + - 500 = - 400" by (simp add: sample_row_def)
  with stored
    no_input_validation
      [of "\<lparr>now = 2000, freshId = ''p8''\<rparr>" "''u''" "''l''" "- 500" "[sample_row]" "- 3"]
  show ?thesis by simp
qed

text \<open>
  As stated, the claim asks for a rejection that leaves the table unchanged. On an empty
  table \<open>addTimeSpent('u', 'l', -5)\<close> creates a record with \<open>timeSpentSecs = -5\<close>, and
  \<open>markStepComplete('u', 'l', -1)\<close> creates one with \<open>completedSteps = [-1]\<close>.
\<close>

theorem no_input_validation_counterexample:
  "addTimeSpent \<lparr>now = 0, freshId = ''p1''\<rparr> ''u'' ''l'' (- 5) []
     = (Inr (), [\<lparr>id' = ''p1'', userId = ''u'', lessonId = ''l'', completedSteps = [],
                  currentStep = 0, startedAt = 0, completedAt = None,
                  timeSpentSecs = - 5, hintsUsed = 0, attempts = 0\<rparr>])
   \<and> fst (addTimeSpent \<lparr>now = 0, freshId = ''p1''\<rparr> ''u'' ''l'' (- 5) []) \<noteq> Inl InvalidInput
   \<and> snd (addTimeSpent \<lparr>now = 0, freshId = ''p1''\<rparr> ''u'' ''l'' (- 5) []) \<noteq> []
   \<and> markStepComplete \<lparr>now = 0, freshId = ''p1''\<rparr> ''u'' ''l'' (- 1) []
     = (Inr \<lparr>id' = ''p1'', userId = ''u'', lessonId = ''l'', completedSteps = [- 1],
              currentStep = 0, startedAt = 0, completedAt = None,
              timeSpentSecs = 0, hintsUsed = 0, attempts = 1\<rparr>,
        [\<lparr>id' = ''p1'', userId = ''u'', lessonId = ''l'', completedSteps = [- 1],
              currentStep = 0, startedAt = 0, completedAt = None,
              timeSpentSecs = 0, hintsUsed = 0, attempts = 1\<rparr>])"
  by (simp add: addTimeSpent_def markStepComplete_def upsert_def findUnique_def has_key_def
        create_row_def update_row_def or_default_def mapToDbProgress_def no_update_def Let_def)

subsection \<open>The cursor points past every completed step\<close>

lemma past_steps_iff:
  "(cs = [] \<or> Max (set cs) + 1 \<le> c) \<longleftrightarrow> (\<forall>n\<in>set cs. n + 1 \<le> (c::int))"
proof (cases "cs = []")
  case True
  then show ?thesis by simp
next
  case False
  then have "Max (set cs) \<le> c - 1 \<longleftrightarrow> (\<forall>n\<in>set cs. n \<le> c - 1)"
    by (simp add: Max_le_iff)
  with False show ?thesis by (simp add: le_diff_eq)
qed

lemma step_inv_iff: "step_inv r \<longleftrightarrow> (\<forall>n\<in>set (completedSteps r). n + 1 \<le> currentStep r)"
  unfolding step_inv_def by (rule past_steps_iff)

text \<open>
  Claim C6, as amended. In a table where every record has
  \<open>currentStep \<ge> max(completedSteps) + 1\<close> whenever \<open>completedSteps\<close> is not empty,
  every record still has this after \<open>markStepComplete\<close>, \<open>addTimeSpent\<close> and
  \<open>markLessonComplete\<close>. After \<open>upsertProgress\<close> every record has it exactly when
  the values the call stores for \<open>currentStep\<close> and \<open>completedSteps\<close> (supplied,
  else stored, else the creation default) have it; this is so in particular when the
  input supplies neither of the two fields.
\<close>

theorem cursor_past_completed_steps_preserved:
  assumes "\<forall>r\<in>set t. step_inv r"
  shows "(stores_valid_cursor op t \<longrightarrow> (\<forall>r\<in>set (exec e op t). step_inv r))
     \<and> (in_currentStep d = None \<and> in_completedSteps d = None \<longrightarrow>
          stores_valid_cursor (UpsertProgress d) t)
     \<and> ((\<forall>r\<in>set (exec e (UpsertProgress d) t). step_inv r) \<longrightarrow>
          stores_valid_cursor (UpsertProgress d) t)"
proof (intro conjI impI)
  assume ok: "stores_valid_cursor op t"
  show "\<forall>r\<in>set (exec e op t). step_inv r"
  proof (rule exec_rows[OF assms])
    fix d assume op: "op = UpsertProgress d"
    from findUnique_upsertProgress[of e d t] ok
    show "\<forall>p. fst (upsertProgress e d t) = Inr p \<longrightarrow> step_inv p"
      unfolding op by (auto simp: step_inv_def upsert_stores_valid_cursor_def Let_def)
  next
    fix u l n assume "op = MarkStepComplete u l n"
    show "\<forall>p. fst (markStepComplete e u l n t) = Inr p \<longrightarrow> step_inv p"
    proof (cases "findUnique u l t")
      case None
      then show ?thesis by (simp add: markStepComplete_None Let_def step_inv_def)
    next
      case (Some r)
      then have "step_inv r" using assms findUnique_Some_key by blast
      with Some show ?thesis
        by (auto simp: markStepComplete_Some Let_def step_inv_iff)
    qed
  next
    fix u l s assume "op = AddTimeSpent u l s"
    show "step_inv (case findUnique u l t of
                None \<Rightarrow> \<lparr>id' = freshId e, userId = u, lessonId = l, completedSteps = [],
                         currentStep = 0, startedAt = now e, completedAt = None,
                         timeSpentSecs = s, hintsUsed = 0, attempts = 0\<rparr>
              | Some r \<Rightarrow> r\<lparr>timeSpentSecs := timeSpentSecs r + s\<rparr>)"
      using assms findUnique_Some_key[of u l t]
      by (auto simp: step_inv_def split: option.splits)
  next
    fix u l r assume "op = MarkLessonComplete u l" "findUnique u l t = Some r"
    then have "step_inv r" using assms findUnique_Some_key by blast
    then show "step_inv (r\<lparr>completedAt := Some (now e)\<rparr>)"
      by (simp add: step_inv_def)
  qed
next
  assume none: "in_currentStep d = None \<and> in_completedSteps d = None"
  show "stores_valid_cursor (UpsertProgress d) t"
  proof (cases "findUnique (in_userId d) (in_lessonId d) t")
    case None
    with none show ?thesis
      by (simp add: upsert_stores_valid_cursor_def or_default_def)
  next
    case (Some r)
    then have "step_inv r" using assms findUnique_Some_key by blast
    with Some none show ?thesis
      by (simp add: upsert_stores_valid_cursor_def or_default_def step_inv_def)
  qed
next
  assume all: "\<forall>r\<in>set (exec e (UpsertProgress d) t). step_inv r"
  from findUnique_upsertProgress[of e d t] obtain p t' where
    run: "upsertProgress e d t = (Inr p, t')"
    and stored: "findUnique (in_userId d) (in_lessonId d) t' = Some p"
    and vals: "completedSteps p = or_default (in_completedSteps d)
        (case findUnique (in_userId d) (in_lessonId d) t of None \<Rightarrow> [] | Some r \<Rightarrow> completedSteps r)"
      "currentStep p = or_default (in_currentStep d)
        (case findUnique (in_userId d) (in_lessonId d) t of None \<Rightarrow> 0 | Some r \<Rightarrow> currentStep r)"
    by blast
  from stored have "p \<in> set t'" by (simp add: findUnique_Some_key)
  with all run have "step_inv p" by simp
  with vals show "stores_valid_cursor (UpsertProgress d) t"
    by (simp add: upsert_stores_valid_cursor_def step_inv_def Let_def)
qed

theorem cursor_past_completed_steps_preserved_witness:
  "step_inv sample_row
   \<and> stores_valid_cursor (MarkStepComplete ''u'' ''l'' 7) [sample_row]
   \<and> exec \<lparr>now = 2000, freshId = ''p8''\<rparr> (MarkStepComplete ''u'' ''l'' 7) [sample_row]
       = [sample_row\<lparr>completedSteps := [0, 1, 7], currentStep := 8, attempts := 4\<rparr>]
   \<and> step_inv (sample_row\<lparr>completedSteps := [0, 1, 7], currentStep := 8, attempts := 4\<rparr>)
   \<and> stores_valid_cursor (UpsertProgress ((progress_input ''u'' ''l'')\<lparr>in_hintsUsed := Some 1\<rparr>))
        [sample_row]
   \<and> exec \<lparr>now = 2000, freshId = ''p8''\<rparr>
        (UpsertProgress ((progress_input ''u'' ''l'')\<lparr>in_hintsUsed := Some 1\<rparr>)) [sample_row]
       = [sample_row\<lparr>hintsUsed := 3\<rparr>]
   \<and> step_inv (sample_row\<lparr>hintsUsed := 3\<rparr>)"
proof -
  have inv: "\<forall>r\<in>set [sample_row]. step_inv r"
    by (simp add: step_inv_def sample_row_def)
  have run1: "exec \<lparr>now = 2000, freshId = ''p8''\<rparr> (MarkStepComplete ''u'' ''l'' 7) [sample_row]
       = [sample_row\<lparr>completedSteps := [0, 1, 7], currentStep := 8, attempts := 4\<rparr>]"
    by (simp add: run_defs sample_row_def)
  have run2: "exec \<lparr>now = 2000, freshId = ''p8''\<rparr>
        (UpsertProgress ((progress_input ''u'' ''l'')\<lparr>in_hintsUsed := Some 1\<rparr>)) [sample_row]
       = [sample_row\<lparr>hintsUsed := 3\<rparr>]"
    by (simp add: run_defs sample_row_def)
  have none: "in_currentStep ((progress_input ''u'' ''l'')\<lparr>in_hintsUsed := Some 1\<rparr>) = None
     \<and> in_completedSteps ((progress_input ''u'' ''l'')\<lparr>in_hintsUsed := Some 1\<rparr>) = None"
    by (simp add: progress_input_def)
  from cursor_past_completed_steps_preserved
    [OF inv, of "MarkStepComplete ''u'' ''l'' 7" "\<lparr>now = 2000, freshId = ''p8''\<rparr>"]
  have one: "step_inv (sample_row\<lparr>completedSteps := [0, 1, 7], currentStep := 8, attempts := 4\<rparr>)"
    unfolding run1 by simp
  from cursor_past_completed_steps_preserved
    [OF inv, of "UpsertProgress ((progress_input ''u'' ''l'')\<lparr>in_hintsUsed := Some 1\<rparr>)"
       "\<lparr>now = 2000, freshId = ''p8''\<rparr>" "(progress_input ''u'' ''l'')\<lparr>in_hintsUsed := Some 1\<rparr>"]
    none
  have two: "stores_valid_cursor (UpsertProgress ((progress_input ''u'' ''l'')\<lparr>in_hintsUsed := Some 1\<rparr>))
        [sample_row]"
    and three: "step_inv (sample_row\<lparr>hintsUsed := 3\<rparr>)"
    unfolding run2 by simp_all
  from inv one two three run1 run2 show ?thesis by simp
qed

text \<open>
  \<open>upsertProgress\<close> alone does not keep the invariant: after step 0 is completed the
  cursor is at 1, and \<open>upsertProgress\<close> with \<open>currentStep: 0\<close> puts it back on the
  completed step.
\<close>

theorem cursor_past_completed_steps_counterexample:
  "markStepComplete \<lparr>now = 0, freshId = ''p1''\<rparr> ''u'' ''l'' 0 []
     = (Inr first_step_row, [first_step_row])
   \<and> step_inv first_step_row
   \<and> upsertProgress \<lparr>now = 1, freshId = ''p2''\<rparr>
       ((progress_input ''u'' ''l'')\<lparr>in_currentStep := Some 0\<rparr>) [first_step_row]
     = (Inr (first_step_row\<lparr>currentStep := 0\<rparr>), [first_step_row\<lparr>currentStep := 0\<rparr>])
   \<and> \<not> step_inv (first_step_row\<lparr>currentStep := 0\<rparr>)"
  by (simp add: run_defs first_step_row_def step_inv_def)

subsection \<open>The completion time\<close>

text \<open>
  Claim C7, as amended. Once \<open>completedAt\<close> is set on a record, no call clears it:
  after any of the four writing calls, on any key, the record still has a
  \<open>completedAt\<close>. \<open>upsertProgress\<close>, \<open>markStepComplete\<close> and
  \<open>addTimeSpent\<close>, and \<open>markLessonComplete\<close> on another key, leave its value
  unchanged; \<open>markLessonComplete\<close> on the record's key overwrites it with the current
  time of that call, which is not earlier than the stored value when the clock has not
  gone back behind it.
\<close>

theorem completedAt_stays_set:
  assumes "findUnique u l t = Some r" and "completedAt r = Some d"
  shows "\<exists>r' d'. findUnique u l (exec e op t) = Some r' \<and> completedAt r' = Some d' \<and>
           d' = (if op = MarkLessonComplete u l then now e else d) \<and>
           (d \<le> now e \<longrightarrow> d \<le> d')"
proof -
  have "\<exists>r'. findUnique u l (exec e op t) = Some r' \<and>
           completedAt r' = (if op = MarkLessonComplete u l then Some (now e) else Some d)"
  proof (cases "op_key op = (u, l)")
    case False
    then have "op \<noteq> MarkLessonComplete u l" by auto
    with exec_frame[OF False, of e t] assms show ?thesis by simp
  next
    case True
    show ?thesis
    proof (cases op)
      case (UpsertProgress inp)
      with True findUnique_upsertProgress[of e inp t] assms show ?thesis by auto
    next
      case (MarkStepComplete u' l' n)
      let ?p = "r\<lparr>completedSteps := (if n \<in> set (completedSteps r) then completedSteps r
                                       else completedSteps r @ [n]),
                   currentStep := max (currentStep r) (n + 1),
                   attempts := attempts r + 1\<rparr>"
      have "has_key u l ?p"
        using assms(1) by (simp add: has_key_def findUnique_userId findUnique_lessonId)
      then have "findUnique u l (replace_row u l ?p t) = Some ?p"
        using assms(1) by (rule findUnique_replace_same)
      with True assms show ?thesis unfolding MarkStepComplete
        by (simp add: markStepComplete_Some Let_def)
    next
      case (AddTimeSpent u' l' s)
      let ?p = "r\<lparr>timeSpentSecs := timeSpentSecs r + s\<rparr>"
      have "has_key u l ?p"
        using assms(1) by (simp add: has_key_def findUnique_userId findUnique_lessonId)
      then have "findUnique u l (replace_row u l ?p t) = Some ?p"
        using assms(1) by (rule findUnique_replace_same)
      with True assms show ?thesis unfolding AddTimeSpent
        by (simp add: addTimeSpent_Some)
    next
      case (MarkLessonComplete u' l')
      let ?p = "r\<lparr>completedAt := Some (now e)\<rparr>"
      have "has_key u l ?p"
        using assms(1) by (simp add: has_key_def findUnique_userId findUnique_lessonId)
      then have "findUnique u l (replace_row u l ?p t) = Some ?p"
        using assms(1) by (rule findUnique_replace_same)
      with True assms show ?thesis unfolding MarkLessonComplete
        by (simp add: markLessonComplete_Some)
    qed
  qed
  then show ?thesis by auto
qed

theorem completedAt_stays_set_witness:
  "findUnique ''u'' ''l'' [sample_row\<lparr>completedAt := Some 5000\<rparr>]
     = Some (sample_row\<lparr>completedAt := Some 5000\<rparr>)
   \<and> completedAt (sample_row\<lparr>completedAt := Some 5000\<rparr>) = Some 5000
   \<and> (\<exists>r'. findUnique ''u'' ''l''
         (exec \<lparr>now = 9000, freshId = ''''\<rparr> (AddTimeSpent ''u'' ''l'' 30)
            [sample_row\<lparr>completedAt := Some 5000\<rparr>]) = Some r'
        \<and> completedAt r' = Some 5000)
   \<and> (5000::int) \<le> 9000
   \<and> (\<exists>r'. findUnique ''u'' ''l''
         (exec \<lparr>now = 9000, freshId = ''''\<rparr> (MarkLessonComplete ''u'' ''l'')
            [sample_row\<lparr>completedAt := Some 5000\<rparr>]) = Some r'
        \<and> completedAt r' = Some 9000)"
proof -
  have stored: "findUnique ''u'' ''l'' [sample_row\<lparr>completedAt := Some 5000\<rparr>]
     = Some (sample_row\<lparr>completedAt := Some 5000\<rparr>)"
    by (simp add: findUnique_def has_key_def sample_row_def)
  have was_set: "completedAt (sample_row\<lparr>completedAt := Some 5000\<rparr>) = Some 5000" by simp
  from completedAt_stays_set[OF stored was_set, of "\<lparr>now = 9000, freshId = ''''\<rparr>" "AddTimeSpent ''u'' ''l'' 30"]
    completedAt_stays_set[OF stored was_set, of "\<lparr>now = 9000, freshId = ''''\<rparr>" "MarkLessonComplete ''u'' ''l''"]
    stored
  show ?thesis by auto
qed

text \<open>
  The value is not immutable: a second \<open>markLessonComplete\<close> at time 9000 replaces
  the \<open>completedAt = 5000\<close> the first call set.
\<close>

theorem completedAt_counterexample:
  "markLessonComplete \<lparr>now = 5000, freshId = ''''\<rparr> ''u'' ''l'' [sample_row]
     = (Inr (sample_row\<lparr>completedAt := Some 5000\<rparr>), [sample_row\<lparr>completedAt := Some 5000\<rparr>])
   \<and> markLessonComplete \<lparr>now = 9000, freshId = ''''\<rparr> ''u'' ''l''
       [sample_row\<lparr>completedAt := Some 5000\<rparr>]
     = (Inr (sample_row\<lparr>completedAt := Some 9000\<rparr>), [sample_row\<lparr>completedAt := Some 9000\<rparr>])
   \<and> completedAt (sample_row\<lparr>completedAt := Some 9000\<rparr>) \<noteq> Some 5000"
  by (simp add: run_defs sample_row_def)

subsection \<open>Statistics\<close>

lemma fold_add_sum_list:
  "fold (\<lambda>p sum. sum + f p) xs (a::int) = a + sum_list (map f xs)"
  by (induction xs arbitrary: a) simp_all

text \<open>
  Claim C8. \<open>getStats(userId)\<close> returns \<open>totalLessons\<close> = the number of the user's
  records, \<open>completedLessons\<close> = the number of those with \<open>completedAt\<close> set,
  \<open>totalTimeSpent\<close> = the sum of their \<open>timeSpentSecs\<close>, \<open>totalHintsUsed\<close> = the
  sum of their \<open>hintsUsed\<close>, and leaves the table as it was. When the user's records
  are A (completed, \<open>timeSpentSecs = 100\<close>, \<open>hintsUsed = 2\<close>) and B (not completed,
  \<open>timeSpentSecs = 50\<close>, \<open>hintsUsed = 1\<close>) the result is
  \<open>{totalLessons: 2, completedLessons: 1, totalTimeSpent: 150, totalHintsUsed: 3}\<close>.
\<close>

theorem getStats_aggregates:
  "getStats u t =
     (Inr \<lparr>totalLessons = int (length (filter (\<lambda>r. userId r = u) t)),
           completedLessons = int (length (filter (\<lambda>r. userId r = u \<and> completedAt r \<noteq> None) t)),
           totalTimeSpent = sum_list (map timeSpentSecs (filter (\<lambda>r. userId r = u) t)),
           totalHintsUsed = sum_list (map hintsUsed (filter (\<lambda>r. userId r = u) t))\<rparr>, t)
   \<and> (filter (\<lambda>r. userId r = u) t = [a, b] \<and>
       completedAt a \<noteq> None \<and> timeSpentSecs a = 100 \<and> hintsUsed a = 2 \<and>
       completedAt b = None \<and> timeSpentSecs b = 50 \<and> hintsUsed b = 1 \<longrightarrow>
       getStats u t =
         (Inr \<lparr>totalLessons = 2, completedLessons = 1, totalTimeSpent = 150,
               totalHintsUsed = 3\<rparr>, t))"
proof (intro conjI impI)
  have both: "filter (\<lambda>p. completedAt p \<noteq> None) (filter (\<lambda>r. userId r = u) t)
      = filter (\<lambda>r. userId r = u \<and> completedAt r \<noteq> None) t"
    by (simp add: conj_commute)
  show general: "getStats u t =
     (Inr \<lparr>totalLessons = int (length (filter (\<lambda>r. userId r = u) t)),
           completedLessons = int (length (filter (\<lambda>r. userId r = u \<and> completedAt r \<noteq> None) t)),
           totalTimeSpent = sum_list (map timeSpentSecs (filter (\<lambda>r. userId r = u) t)),
           totalHintsUsed = sum_list (map hintsUsed (filter (\<lambda>r. userId r = u) t))\<rparr>, t)"
    unfolding getStats_def findMany_def Let_def both [symmetric]
    by (simp add: fold_add_sum_list)
  assume ab: "filter (\<lambda>r. userId r = u) t = [a, b] \<and>
       completedAt a \<noteq> None \<and> timeSpentSecs a = 100 \<and> hintsUsed a = 2 \<and>
       completedAt b = None \<and> timeSpentSecs b = 50 \<and> hintsUsed b = 1"
  then have "filter (\<lambda>r. userId r = u \<and> completedAt r \<noteq> None) t = [a]"
    unfolding both [symmetric] by simp
  with ab show "getStats u t =
         (Inr \<lparr>totalLessons = 2, completedLessons = 1, totalTimeSpent = 150,
               totalHintsUsed = 3\<rparr>, t)"
    unfolding general by simp
qed

text \<open>
  The records A and B created through the repository, with a record of another user
  between them.
\<close>

theorem getStats_aggregates_witness:
  "snd (upsertProgress \<lparr>now = 40, freshId = ''p3''\<rparr>
          ((progress_input ''u'' ''B'')\<lparr>in_timeSpentSecs := Some 50, in_hintsUsed := Some 1\<rparr>)
       (snd (addTimeSpent \<lparr>now = 30, freshId = ''p2''\<rparr> ''v'' ''A'' 7
       (snd (markLessonComplete \<lparr>now = 20, freshId = ''''\<rparr> ''u'' ''A''
       (snd (upsertProgress \<lparr>now = 10, freshId = ''p1''\<rparr>
          ((progress_input ''u'' ''A'')\<lparr>in_timeSpentSecs := Some 100, in_hintsUsed := Some 2\<rparr>)
          [])))))))
     = [lesson_A_row, other_user_row, lesson_B_row]
   \<and> filter (\<lambda>r. userId r = ''u'') [lesson_A_row, other_user_row, lesson_B_row]
       = [lesson_A_row, lesson_B_row]
   \<and> completedAt lesson_A_row \<noteq> None \<and> timeSpentSecs lesson_A_row = 100
   \<and> hintsUsed lesson_A_row = 2
   \<and> completedAt lesson_B_row = None \<and> timeSpentSecs lesson_B_row = 50
   \<and> hintsUsed lesson_B_row = 1
   \<and> getStats ''u'' [lesson_A_row, other_user_row, lesson_B_row]
       = (Inr \<lparr>totalLessons = 2, completedLessons = 1, totalTimeSpent = 150,
               totalHintsUsed = 3\<rparr>, [lesson_A_row, other_user_row, lesson_B_row])"
proof -
  have built: "snd (upsertProgress \<lparr>now = 40, freshId = ''p3''\<rparr>
          ((progress_input ''u'' ''B'')\<lparr>in_timeSpentSecs := Some 50, in_hintsUsed := Some 1\<rparr>)
       (snd (addTimeSpent \<lparr>now = 30, freshId = ''p2''\<rparr> ''v'' ''A'' 7
       (snd (markLessonComplete \<lparr>now = 20, freshId = ''''\<rparr> ''u'' ''A''
       (snd (upsertProgress \<lparr>now = 10, freshId = ''p1''\<rparr>
          ((progress_input ''u'' ''A'')\<lparr>in_timeSpentSecs := Some 100, in_hintsUsed := Some 2\<rparr>)
          [])))))))
     = [lesson_A_row, other_user_row, lesson_B_row]"
    by (simp add: run_defs lesson_A_row_def other_user_row_def lesson_B_row_def)
  have rows: "filter (\<lambda>r. userId r = ''u'') [lesson_A_row, other_user_row, lesson_B_row]
       = [lesson_A_row, lesson_B_row]"
    by (simp add: lesson_A_row_def other_user_row_def lesson_B_row_def)
  have fields: "completedAt lesson_A_row \<noteq> None" "timeSpentSecs lesson_A_row = 100"
    "hintsUsed lesson_A_row = 2" "completedAt lesson_B_row = None"
    "timeSpentSecs lesson_B_row = 50" "hintsUsed lesson_B_row = 1"
    by (simp_all add: lesson_A_row_def lesson_B_row_def)
  from getStats_aggregates
    [of "''u''" "[lesson_A_row, other_user_row, lesson_B_row]" lesson_A_row lesson_B_row]
    rows fields
  have "getStats ''u'' [lesson_A_row, other_user_row, lesson_B_row]
       = (Inr \<lparr>totalLessons = 2, completedLessons = 1, totalTimeSpent = 150,
               totalHintsUsed = 3\<rparr>, [lesson_A_row, other_user_row, lesson_B_row])"
    by blast
  with built rows fields show ?thesis by blast
qed

subsection \<open>No duplicate steps\<close>

text \<open>
  Claim C9, as amended. In a table where no record lists a step twice in
  \<open>completedSteps\<close>, no record does after \<open>markStepComplete\<close>, \<open>addTimeSpent\<close>
  or \<open>markLessonComplete\<close>, nor after an \<open>upsertProgress\<close> whose input has no
  \<open>completedSteps\<close> or a \<open>completedSteps\<close> list without duplicates.
\<close>

theorem completedSteps_distinct_preserved:
  assumes "\<forall>r\<in>set t. distinct (completedSteps r)"
    and "supplies_distinct_steps op"
  shows "\<forall>r\<in>set (exec e op t). distinct (completedSteps r)"
proof (rule exec_rows[OF assms(1)])
  fix d assume op: "op = UpsertProgress d"
  show "\<forall>p. fst (upsertProgress e d t) = Inr p \<longrightarrow> distinct (completedSteps p)"
  proof (cases "findUnique (in_userId d) (in_lessonId d) t")
    case None
    with assms(2) show ?thesis
      unfolding op
      by (auto simp: upsertProgress_None Let_def or_default_def split: option.splits)
  next
    case (Some r)
    then have "distinct (completedSteps r)"
      using assms(1) findUnique_Some_key by blast
    with Some assms(2) show ?thesis
      unfolding op
      by (auto simp: upsertProgress_Some Let_def or_default_def split: option.splits)
  qed
next
  fix u l n assume "op = MarkStepComplete u l n"
  show "\<forall>p. fst (markStepComplete e u l n t) = Inr p \<longrightarrow> distinct (completedSteps p)"
  proof (cases "findUnique u l t")
    case None
    then show ?thesis by (simp add: markStepComplete_None Let_def)
  next
    case (Some r)
    then have "distinct (completedSteps r)"
      using assms(1) findUnique_Some_key by blast
    with Some show ?thesis by (auto simp: markStepComplete_Some Let_def)
  qed
next
  fix u l s assume "op = AddTimeSpent u l s"
  show "distinct (completedSteps (case findUnique u l t of
                None \<Rightarrow> \<lparr>id' = freshId e, userId = u, lessonId = l, completedSteps = [],
                         currentStep = 0, startedAt = now e, completedAt = None,
                         timeSpentSecs = s, hintsUsed = 0, attempts = 0\<rparr>
              | Some r \<Rightarrow> r\<lparr>timeSpentSecs := timeSpentSecs r + s\<rparr>))"
    using assms(1) findUnique_Some_key[of u l t] by (auto split: option.splits)
next
  fix u l r assume "op = MarkLessonComplete u l" "findUnique u l t = Some r"
  then show "distinct (completedSteps (r\<lparr>completedAt := Some (now e)\<rparr>))"
    using assms(1) findUnique_Some_key by fastforce
qed

theorem completedSteps_distinct_preserved_witness:
  "distinct (completedSteps sample_row)
   \<and> supplies_distinct_steps (MarkStepComplete ''u'' ''l'' 1)
   \<and> exec \<lparr>now = 2000, freshId = ''p8''\<rparr> (MarkStepComplete ''u'' ''l'' 1) [sample_row]
       = [sample_row\<lparr>attempts := 4\<rparr>]
   \<and> distinct (completedSteps (sample_row\<lparr>attempts := 4\<rparr>))
   \<and> supplies_distinct_steps
        (UpsertProgress ((progress_input ''u'' ''l'')\<lparr>in_completedSteps := Some [2, 0]\<rparr>))
   \<and> exec \<lparr>now = 2000, freshId = ''p8''\<rparr>
        (UpsertProgress ((progress_input ''u'' ''l'')\<lparr>in_completedSteps := Some [2, 0]\<rparr>))
        [sample_row]
       = [sample_row\<lparr>completedSteps := [2, 0]\<rparr>]
   \<and> distinct (completedSteps (sample_row\<lparr>completedSteps := [2, 0]\<rparr>))"
proof -
  have inv: "\<forall>r\<in>set [sample_row]. distinct (completedSteps r)"
    by (simp add: sample_row_def)
  have ok1: "supplies_distinct_steps (MarkStepComplete ''u'' ''l'' 1)" by simp
  have ok2: "supplies_distinct_steps
        (UpsertProgress ((progress_input ''u'' ''l'')\<lparr>in_completedSteps := Some [2, 0]\<rparr>))"
    by simp
  have run1: "exec \<lparr>now = 2000, freshId = ''p8''\<rparr> (MarkStepComplete ''u'' ''l'' 1) [sample_row]
       = [sample_row\<lparr>attempts := 4\<rparr>]"
    by (simp add: run_defs sample_row_def)
  have run2: "exec \<lparr>now = 2000, freshId = ''p8''\<rparr>
        (UpsertProgress ((progress_input ''u'' ''l'')\<lparr>in_completedSteps := Some [2, 0]\<rparr>))
        [sample_row]
       = [sample_row\<lparr>completedSteps := [2, 0]\<rparr>]"
    by (simp add: run_defs sample_row_def)
  from completedSteps_distinct_preserved[OF inv ok1, of "\<lparr>now = 2000, freshId = ''p8''\<rparr>"]
  have one: "distinct (completedSteps (sample_row\<lparr>attempts := 4\<rparr>))"
    unfolding run1 by simp
  from completedSteps_distinct_preserved[OF inv ok2, of "\<lparr>now = 2000, freshId = ''p8''\<rparr>"]
  have two: "distinct (completedSteps (sample_row\<lparr>completedSteps := [2, 0]\<rparr>))"
    unfolding run2 by simp
  from inv ok1 ok2 run1 run2 one two show ?thesis by simp
qed

text \<open>
  \<open>upsertProgress\<close> stores the list it is given: with \<open>completedSteps: [0, 0]\<close>
  on a record that lists step 0 once, the record lists it twice.
\<close>

theorem completedSteps_distinct_counterexample:
  "distinct (completedSteps first_step_row)
   \<and> upsertProgress \<lparr>now = 1, freshId = ''p2''\<rparr>
       ((progress_input ''u'' ''l'')\<lparr>in_completedSteps := Some [0, 0]\<rparr>) [first_step_row]
     = (Inr (first_step_row\<lparr>completedSteps := [0, 0]\<rparr>),
        [first_step_row\<lparr>completedSteps := [0, 0]\<rparr>])
   \<and> \<not> distinct (completedSteps (first_step_row\<lparr>completedSteps := [0, 0]\<rparr>))"
  by (simp add: run_defs first_step_row_def)

subsection \<open>What \<open>markStepComplete\<close> leaves alone\<close>

text \<open>
  Claim C10. On an existing record, \<open>markStepComplete(userId, lessonId, stepNumber)\<close>
  changes only \<open>completedSteps\<close>, \<open>currentStep\<close> and \<open>attempts\<close>: the fields
  \<open>id\<close>, \<open>userId\<close>, \<open>lessonId\<close>, \<open>startedAt\<close>, \<open>completedAt\<close>,
  \<open>timeSpentSecs\<close> and \<open>hintsUsed\<close> of the record are unchanged, and the records of
  every other key are unchanged (looked up by key, and as rows of the table).
\<close>

theorem markStepComplete_frame:
  assumes "findUnique u l t = Some r"
  shows "\<exists>p t'. markStepComplete e u l n t = (Inr p, t') \<and> findUnique u l t' = Some p \<and>
           id' p = id' r \<and> userId p = userId r \<and> lessonId p = lessonId r \<and>
           startedAt p = startedAt r \<and> completedAt p = completedAt r \<and>
           timeSpentSecs p = timeSpentSecs r \<and> hintsUsed p = hintsUsed r \<and>
           (\<forall>u' l'. (u', l') \<noteq> (u, l) \<longrightarrow> findUnique u' l' t' = findUnique u' l' t) \<and>
           filter (\<lambda>x. \<not> has_key u l x) t' = filter (\<lambda>x. \<not> has_key u l x) t \<and>
           length t' = length t"
proof -
  let ?p = "r\<lparr>completedSteps := (if n \<in> set (completedSteps r) then completedSteps r
                                     else completedSteps r @ [n]),
                 currentStep := max (currentStep r) (n + 1),
                 attempts := attempts r + 1\<rparr>"
  have key: "has_key u l ?p"
    using assms by (simp add: has_key_def findUnique_userId findUnique_lessonId)
  have run: "markStepComplete e u l n t = (Inr ?p, replace_row u l ?p t)"
    using assms by (simp add: markStepComplete_Some Let_def)
  have "findUnique u l (replace_row u l ?p t) = Some ?p"
    using key assms by (rule findUnique_replace_same)
  moreover have "\<forall>u' l'. (u', l') \<noteq> (u, l) \<longrightarrow>
      findUnique u' l' (replace_row u l ?p t) = findUnique u' l' t"
    using key by (simp add: findUnique_replace_other)
  moreover have "filter (\<lambda>x. \<not> has_key u l x) (replace_row u l ?p t)
      = filter (\<lambda>x. \<not> has_key u l x) t"
    using key by (rule filter_replace_row)
  ultimately show ?thesis using run by (simp add: length_replace_row)
qed

theorem markStepComplete_frame_witness:
  "findUnique ''u'' ''l'' [sample_row\<lparr>lessonId := ''k''\<rparr>, sample_row] = Some sample_row
   \<and> (\<exists>p t'. markStepComplete \<lparr>now = 2000, freshId = ''p8''\<rparr> ''u'' ''l'' 7
                [sample_row\<lparr>lessonId := ''k''\<rparr>, sample_row] = (Inr p, t')
         \<and> findUnique ''u'' ''l'' t' = Some p
         \<and> id' p = ''p7'' \<and> userId p = ''u'' \<and> lessonId p = ''l''
         \<and> startedAt p = 1000 \<and> completedAt p = None
         \<and> timeSpentSecs p = 100 \<and> hintsUsed p = 2
         \<and> findUnique ''u'' ''k'' t' = Some (sample_row\<lparr>lessonId := ''k''\<rparr>)
         \<and> length t' = 2)"
proof -
  have stored: "findUnique ''u'' ''l'' [sample_row\<lparr>lessonId := ''k''\<rparr>, sample_row] = Some sample_row"
    by (simp add: findUnique_def has_key_def sample_row_def)
  have other: "findUnique ''u'' ''k'' [sample_row\<lparr>lessonId := ''k''\<rparr>, sample_row]
      = Some (sample_row\<lparr>lessonId := ''k''\<rparr>)"
    by (simp add: findUnique_def has_key_def sample_row_def)
  from markStepComplete_frame [OF stored, of "\<lparr>now = 2000, freshId = ''p8''\<rparr>" 7]
  obtain p t' where run: "markStepComplete \<lparr>now = 2000, freshId = ''p8''\<rparr> ''u'' ''l'' 7
                [sample_row\<lparr>lessonId := ''k''\<rparr>, sample_row] = (Inr p, t')"
    and same: "findUnique ''u'' ''l'' t' = Some p" "id' p = id' sample_row"
      "userId p = userId sample_row" "lessonId p = lessonId sample_row"
      "startedAt p = startedAt sample_row" "completedAt p = completedAt sample_row"
      "timeSpentSecs p = timeSpentSecs sample_row" "hintsUsed p = hintsUsed sample_row"
    and others: "\<forall>u' l'. (u', l') \<noteq> (''u'', ''l'') \<longrightarrow>
        findUnique u' l' t' = findUnique u' l' [sample_row\<lparr>lessonId := ''k''\<rparr>, sample_row]"
    and len: "length t' = length [sample_row\<lparr>lessonId := ''k''\<rparr>, sample_row]"
    by blast
  from others other have "findUnique ''u'' ''k'' t' = Some (sample_row\<lparr>lessonId := ''k''\<rparr>)"
    by simp
  with stored run same len show ?thesis by (simp add: sample_row_def)
qed

end
